theory Spec2Isabelle
  imports Complex_Main "HOL-Library.Multiset" "HOL-Library.Product_Lexorder"
begin

section \<open>Values shared by the three scripts\<close>

text \<open>
  The repository holds three scripts: \<open>sequential_process.py\<close>, \<open>parallel_process.py\<close>
  and \<open>distributed_sim.py\<close>. Each has a \<open>process_image\<close> and a \<open>main\<close>; the
  definitions below carry the script's name as a prefix.

  Modelling decisions, all of them visible in the definitions:
  \<^item> A path is the list of its components (an absolute, normalised path split at the
    separator). \<open>os.path.join\<close> with a relative second argument appends the components;
    \<open>os.path.relpath\<close> is the component algorithm of the standard library.
  \<^item> Clock readings (\<open>time.perf_counter()\<close>) are inputs: the n-th reading of a process
    is \<open>clk n\<close>. Times are real numbers; the rounding of binary floating point is not
    modelled, only which readings are subtracted and divided. Python raises
    \<open>ZeroDivisionError\<close> for a float division by zero; the model has that branch.
  \<^item> The body of the \<open>try\<close> block of \<open>process_image\<close> (open, resize, watermark, save:
    the imaging library) is an input as well: for every invocation it either completes or
    raises an instance of \<open>Exception\<close> with a message. Signals that are not instances of
    \<open>Exception\<close> (a keyboard interrupt, interpreter exit) lie outside the model.
  \<^item> The console output that is modelled is the line \<open>Error processing <input>: <e>\<close>,
    kept as the pair of the input path and the message. The \<open>print\<close> that writes it
    stands in the handler, outside any \<open>try\<close>: when the standard output cannot encode
    the line (a file name outside its encoding) the \<open>print\<close> raises
    \<open>UnicodeEncodeError\<close>, nothing is written, and the exception leaves
    \<open>process_image\<close>. Whether the console takes the line is part of the input for the
    invocation.
\<close>

type_synonym path = "string list"

datatype py_error = ZeroDivisionError | ValueError | IndexError | UnicodeEncodeError

datatype py_value = PyNone | PyBool bool

text \<open>What the console does with the error line of an invocation.\<close>

datatype console = Prints | Refuses

datatype try_body = Completes | Raises string console

text \<open>What one process has done so far: the \<open>process_image\<close> invocations in order, the
  error lines printed, and how often the clock was read.\<close>

record world =
  calls :: "(path \<times> path) list"
  errors_printed :: "(path \<times> string) list"
  ticks :: nat

definition fresh_world :: world where
  "fresh_world = \<lparr>calls = [], errors_printed = [], ticks = 0\<rparr>"

definition perf_counter :: "(nat \<Rightarrow> real) \<Rightarrow> world \<Rightarrow> real \<times> world" where
  "perf_counter clk w = (clk (ticks w), w\<lparr>ticks := Suc (ticks w)\<rparr>)"

text \<open>The imaging body of the n-th invocation of a process, for the given pair of paths.\<close>

type_synonym imaging = "nat \<Rightarrow> path \<times> path \<Rightarrow> try_body"

text \<open>An input under which every error line can be printed.\<close>

definition prints_all :: "imaging \<Rightarrow> bool" where
  "prints_all body = (\<forall>n p e. body n p \<noteq> Raises e Refuses)"

subsection \<open>Paths\<close>

fun commonprefix :: "'a list \<Rightarrow> 'a list \<Rightarrow> 'a list" where
  "commonprefix (x # xs) (y # ys) = (if x = y then x # commonprefix xs ys else [])"
| "commonprefix _ _ = []"

definition relpath :: "path \<Rightarrow> path \<Rightarrow> path" where
  "relpath p start =
     (let i = length (commonprefix start p);
          rel_list = replicate (length start - i) ''..'' @ drop i p
      in if rel_list = [] then [''.''] else rel_list)"

definition join :: "path \<Rightarrow> path \<Rightarrow> path" where
  "join a b = a @ b"

definition SOURCE_DIR :: "path \<Rightarrow> path" where
  "SOURCE_DIR script_dir = join script_dir [''images_dataset'']"

section \<open>The partitioner of distributed\_sim.py\<close>

definition NUM_NODES :: int where
  "NUM_NODES = 2"

text \<open>\<open>math.ceil(total_images / NUM_NODES)\<close>: a true division, then the ceiling. The
  division raises for a zero divisor.\<close>

definition images_per_node :: "nat \<Rightarrow> int \<Rightarrow> py_error + int" where
  "images_per_node total_images num_nodes =
     (if num_nodes = 0 then Inl ZeroDivisionError
      else Inr \<lceil>real total_images / real_of_int num_nodes\<rceil>)"

text \<open>A slice bound as Python clamps it: a negative bound counts from the end, and every
  bound is cut to the range of the list.\<close>

definition slice_bound :: "nat \<Rightarrow> int \<Rightarrow> nat" where
  "slice_bound n i = (if i < 0 then nat (max 0 (int n + i)) else min (nat i) n)"

definition slice_to :: "'a list \<Rightarrow> int \<Rightarrow> 'a list" where
  "slice_to xs i = take (slice_bound (length xs) i) xs"

definition slice_from :: "'a list \<Rightarrow> int \<Rightarrow> 'a list" where
  "slice_from xs i = drop (slice_bound (length xs) i) xs"

definition node_tasks :: "int \<Rightarrow> 'a list \<Rightarrow> py_error + 'a list list" where
  "node_tasks num_nodes all_image_paths =
     (case images_per_node (length all_image_paths) num_nodes of
        Inl e \<Rightarrow> Inl e
      | Inr per_node \<Rightarrow>
          Inr [slice_to all_image_paths per_node, slice_from all_image_paths per_node])"

text \<open>Where partition \<open>i\<close> starts in the concatenation of the partitions.\<close>

definition start_of :: "'a list list \<Rightarrow> nat \<Rightarrow> nat" where
  "start_of parts i = sum_list (map length (take i parts))"

section \<open>process\_image in the three scripts\<close>

text \<open>
  The three functions share the body of the \<open>try\<close> block and the handler
  \<open>except Exception as e: print(...)\<close>. They differ in what they return:
  \<open>parallel_process.py\<close> ends the \<open>try\<close> block with \<open>return True\<close> and the handler
  with \<open>return False\<close>; the other two have no \<open>return\<close> statement. In all three the
  exception of a refused \<open>print\<close> leaves the function from inside the handler.
\<close>

definition parallel_process_image :: "imaging \<Rightarrow> path \<times> path \<Rightarrow> world
    \<Rightarrow> (py_error + py_value) \<times> world" where
  "parallel_process_image body image_paths w =
     (case image_paths of (input_path, output_path) \<Rightarrow>
        (let w1 = w\<lparr>calls := calls w @ [(input_path, output_path)]\<rparr>
         in case body (length (calls w)) (input_path, output_path) of
              Completes \<Rightarrow> (Inr (PyBool True), w1)
            | Raises e Prints \<Rightarrow>
                (Inr (PyBool False),
                 w1\<lparr>errors_printed := errors_printed w1 @ [(input_path, e)]\<rparr>)
            | Raises e Refuses \<Rightarrow> (Inl UnicodeEncodeError, w1)))"

definition sequential_process_image :: "imaging \<Rightarrow> path \<times> path \<Rightarrow> world
    \<Rightarrow> (py_error + py_value) \<times> world" where
  "sequential_process_image body image_paths w =
     (case image_paths of (input_path, output_path) \<Rightarrow>
        (let w1 = w\<lparr>calls := calls w @ [(input_path, output_path)]\<rparr>
         in case body (length (calls w)) (input_path, output_path) of
              Completes \<Rightarrow> (Inr PyNone, w1)
            | Raises e Prints \<Rightarrow>
                (Inr PyNone, w1\<lparr>errors_printed := errors_printed w1 @ [(input_path, e)]\<rparr>)
            | Raises e Refuses \<Rightarrow> (Inl UnicodeEncodeError, w1)))"

definition distributed_process_image :: "imaging \<Rightarrow> path \<times> path \<Rightarrow> world
    \<Rightarrow> (py_error + py_value) \<times> world" where
  "distributed_process_image body image_paths w =
     (case image_paths of (input_path, output_path) \<Rightarrow>
        (let w1 = w\<lparr>calls := calls w @ [(input_path, output_path)]\<rparr>
         in case body (length (calls w)) (input_path, output_path) of
              Completes \<Rightarrow> (Inr PyNone, w1)
            | Raises e Prints \<Rightarrow>
                (Inr PyNone, w1\<lparr>errors_printed := errors_printed w1 @ [(input_path, e)]\<rparr>)
            | Raises e Refuses \<Rightarrow> (Inl UnicodeEncodeError, w1)))"

text \<open>Applying a function to every element in order and collecting what it returns: the
  list comprehension of \<open>parallel_process.py\<close> and the \<open>for\<close> loops of the other two
  scripts (which drop the returned values). An exception ends the loop at the element
  that raised it.\<close>

fun run_each :: "('a \<Rightarrow> world \<Rightarrow> (py_error + py_value) \<times> world) \<Rightarrow> 'a list \<Rightarrow> world
    \<Rightarrow> (py_error + py_value list) \<times> world" where
  "run_each f [] w = (Inr [], w)"
| "run_each f (x # xs) w =
     (case f x w of
        (Inl e, w1) \<Rightarrow> (Inl e, w1)
      | (Inr r, w1) \<Rightarrow>
          (case run_each f xs w1 of
             (Inl e, w2) \<Rightarrow> (Inl e, w2)
           | (Inr rs, w2) \<Rightarrow> (Inr (r # rs), w2)))"

text \<open>
  \<open>multiprocessing.Pool(processes=count)\<close> raises \<open>ValueError\<close> for a count below
  one. \<open>pool.map\<close> cuts the tasks into consecutive chunks: the chunk size is the length
  of the task list divided by four times the number of workers, rounded up. A worker runs
  a chunk as a loop over its tasks, so an exception ends that chunk at the task that
  raised it; the other chunks are still run. When all chunks are done \<open>pool.map\<close>
  returns the results in the order of the tasks, or raises the exception of a chunk that
  failed. Which worker runs which chunk, and when, is not modelled: the invocations are
  recorded chunk by chunk in task order.
\<close>

definition pool_chunksize :: "nat \<Rightarrow> nat \<Rightarrow> nat" where
  "pool_chunksize n processes =
     (if n = 0 then 0
      else if n mod (processes * 4) = 0 then n div (processes * 4)
      else n div (processes * 4) + 1)"

function chunks_of :: "nat \<Rightarrow> 'a list \<Rightarrow> 'a list list" where
  "chunks_of chunksize xs =
     (if chunksize = 0 \<or> xs = [] then []
      else take chunksize xs # chunks_of chunksize (drop chunksize xs))"
  by pat_completeness auto
termination
  by (relation "measure (\<lambda>(chunksize, xs). length xs)") auto

fun run_chunks :: "('a \<Rightarrow> world \<Rightarrow> (py_error + py_value) \<times> world) \<Rightarrow> 'a list list \<Rightarrow> world
    \<Rightarrow> (py_error + py_value list) \<times> world" where
  "run_chunks f [] w = (Inr [], w)"
| "run_chunks f (c # cs) w =
     (case run_each f c w of (r, w1) \<Rightarrow>
        (case run_chunks f cs w1 of (rest, w2) \<Rightarrow>
           (case r of
              Inl e \<Rightarrow> (Inl e, w2)
            | Inr rs \<Rightarrow>
                (case rest of
                   Inl e \<Rightarrow> (Inl e, w2)
                 | Inr rss \<Rightarrow> (Inr (rs @ rss), w2)))))"

definition pool_map :: "int \<Rightarrow> ('a \<Rightarrow> world \<Rightarrow> (py_error + py_value) \<times> world) \<Rightarrow> 'a list \<Rightarrow> world
    \<Rightarrow> (py_error + py_value list) \<times> world" where
  "pool_map processes f tasks w =
     (if processes < 1 then (Inl ValueError, w)
      else run_chunks f (chunks_of (pool_chunksize (length tasks) (nat processes)) tasks) w)"

section \<open>sequential\_process.py\<close>

definition sequential_OUTPUT_DIR :: "path \<Rightarrow> path" where
  "sequential_OUTPUT_DIR script_dir = join script_dir [''output_seq'']"

text \<open>\<open>found\<close> is what the walk over the source directory yields after the filter on the
  file extension: the input paths, in the order of the walk.\<close>

definition sequential_image_files :: "path \<Rightarrow> path list \<Rightarrow> (path \<times> path) list" where
  "sequential_image_files script_dir found =
     map (\<lambda>input_path.
            (input_path,
             join (sequential_OUTPUT_DIR script_dir) (relpath input_path (SOURCE_DIR script_dir))))
         found"

definition sequential_main :: "path \<Rightarrow> (nat \<Rightarrow> real) \<Rightarrow> imaging \<Rightarrow> path list
    \<Rightarrow> (py_error + real) \<times> world" where
  "sequential_main script_dir clk body found =
     (case perf_counter clk fresh_world of (total_start_time, w1) \<Rightarrow>
        (case run_each (sequential_process_image body)
                (sequential_image_files script_dir found) w1 of
           (Inl e, w2) \<Rightarrow> (Inl e, w2)
         | (Inr rs, w2) \<Rightarrow>
             (case perf_counter clk w2 of (total_end_time, w3) \<Rightarrow>
                (Inr (total_end_time - total_start_time), w3))))"

section \<open>parallel\_process.py\<close>

definition parallel_OUTPUT_DIR :: "path \<Rightarrow> path" where
  "parallel_OUTPUT_DIR script_dir = join script_dir [''output_parallel'']"

definition parallel_tasks :: "path \<Rightarrow> path list \<Rightarrow> (path \<times> path) list" where
  "parallel_tasks script_dir found =
     map (\<lambda>input_path.
            (input_path,
             join (parallel_OUTPUT_DIR script_dir) (relpath input_path (SOURCE_DIR script_dir))))
         found"

definition worker_counts :: "int list" where
  "worker_counts = [2, 4, 8]"

text \<open>A row of the speedup table: workers, time, speedup.\<close>

type_synonym table_row = "int \<times> real \<times> real"

text \<open>The loop \<open>for count in worker_counts\<close> (the loop variable is \<open>cnt\<close> here). An
  exception leaves the loop and the script; the world it leaves behind is returned with
  it.\<close>

fun pool_tests :: "(nat \<Rightarrow> real) \<Rightarrow> imaging \<Rightarrow> (path \<times> path) list \<Rightarrow> real \<Rightarrow> int list
    \<Rightarrow> table_row list \<Rightarrow> world \<Rightarrow> (py_error + table_row list) \<times> world" where
  "pool_tests clk body tasks baseline_time [] results_table w = (Inr results_table, w)"
| "pool_tests clk body tasks baseline_time (cnt # rest) results_table w =
     (case perf_counter clk w of (start_time, w1) \<Rightarrow>
        (case pool_map cnt (parallel_process_image body) tasks w1 of
           (Inl e, w2) \<Rightarrow> (Inl e, w2)
         | (Inr results, w2) \<Rightarrow>
             (case perf_counter clk w2 of (end_time, w3) \<Rightarrow>
                (let total_time = end_time - start_time
                 in if total_time = 0 then (Inl ZeroDivisionError, w3)
                    else pool_tests clk body tasks baseline_time rest
                           (results_table @ [(cnt, total_time, baseline_time / total_time)])
                           w3))))"

text \<open>\<open>main\<close> with the task list and the worker counts as arguments.\<close>

definition parallel_run :: "(nat \<Rightarrow> real) \<Rightarrow> imaging \<Rightarrow> (path \<times> path) list \<Rightarrow> int list
    \<Rightarrow> (py_error + table_row list) \<times> world" where
  "parallel_run clk body tasks counts =
     (case perf_counter clk fresh_world of (start_seq, w1) \<Rightarrow>
        (case run_each (parallel_process_image body) tasks w1 of
           (Inl e, w2) \<Rightarrow> (Inl e, w2)
         | (Inr results_seq, w2) \<Rightarrow>
             (case perf_counter clk w2 of (end_seq, w3) \<Rightarrow>
                (let baseline_time = end_seq - start_seq
                 in pool_tests clk body tasks baseline_time counts
                      [(1, baseline_time, 1)] w3))))"

definition parallel_main :: "path \<Rightarrow> (nat \<Rightarrow> real) \<Rightarrow> imaging \<Rightarrow> path list
    \<Rightarrow> (py_error + table_row list) \<times> world" where
  "parallel_main script_dir clk body found =
     parallel_run clk body (parallel_tasks script_dir found) worker_counts"

section \<open>distributed\_sim.py\<close>

definition SEQUENTIAL_TIME :: real where
  "SEQUENTIAL_TIME = 1824 / 100"

definition OUTPUT_DIR_NODE1 :: "path \<Rightarrow> path" where
  "OUTPUT_DIR_NODE1 script_dir = join script_dir [''output_dist_node1'']"

definition OUTPUT_DIR_NODE2 :: "path \<Rightarrow> path" where
  "OUTPUT_DIR_NODE2 script_dir = join script_dir [''output_dist_node2'']"

definition node_outputs :: "path \<Rightarrow> path list" where
  "node_outputs script_dir = [OUTPUT_DIR_NODE1 script_dir, OUTPUT_DIR_NODE2 script_dir]"

text \<open>What a node puts into the queue: its id, the number of its images, its time.\<close>

type_synonym node_result = "nat \<times> nat \<times> real"

definition node_output_path :: "path \<Rightarrow> path \<Rightarrow> path \<Rightarrow> path" where
  "node_output_path script_dir output_dir input_path =
     join output_dir (relpath input_path (SOURCE_DIR script_dir))"

text \<open>
  A node is a process of its own: it starts from a fresh world, with its own clock
  readings and its own imaging outcomes. A node that reaches the end of its list puts its
  result into the queue. A node whose \<open>process_image\<close> raises ends there, with nothing
  put into the queue. The run of a node is its id with the result it has queued, if any,
  and the world it leaves behind.
\<close>

type_synonym node_run = "(nat \<times> node_result option) \<times> world"

definition node_worker :: "path \<Rightarrow> (nat \<Rightarrow> real) \<Rightarrow> imaging \<Rightarrow> nat \<Rightarrow> path list \<Rightarrow> path
    \<Rightarrow> node_run" where
  "node_worker script_dir clk body node_id image_list output_dir =
     (case perf_counter clk fresh_world of (start_time, w1) \<Rightarrow>
        (case run_each (\<lambda>input_path.
                  distributed_process_image body
                    (input_path, node_output_path script_dir output_dir input_path))
                image_list w1 of
           (Inl e, w2) \<Rightarrow> ((node_id, None), w2)
         | (Inr rs, w2) \<Rightarrow>
             (case perf_counter clk w2 of (end_time, w3) \<Rightarrow>
                (let time_taken = end_time - start_time
                 in ((node_id, Some (node_id, length image_list, time_taken)), w3)))))"

text \<open>\<open>range(NUM_NODES)\<close>: empty for a count that is not positive.\<close>

definition py_range :: "int \<Rightarrow> nat list" where
  "py_range n = [0 ..< nat n]"

text \<open>The loop that starts the node processes. \<open>node_tasks[i]\<close> and \<open>node_outputs[i]\<close>
  raise \<open>IndexError\<close> past the end of the two lists; the nodes started before stay
  started. The result is the run of every started node and the error, if any.\<close>

fun launch :: "path \<Rightarrow> (nat \<Rightarrow> nat \<Rightarrow> real) \<Rightarrow> (nat \<Rightarrow> imaging) \<Rightarrow> path list list \<Rightarrow> path list
    \<Rightarrow> nat list \<Rightarrow> node_run list \<times> py_error option" where
  "launch script_dir node_clk node_body tasks outputs [] = ([], None)"
| "launch script_dir node_clk node_body tasks outputs (i # rest) =
     (if i < length tasks \<and> i < length outputs
      then (let node_id = i + 1;
                run = node_worker script_dir (node_clk node_id) (node_body node_id) node_id
                        (tasks ! i) (outputs ! i)
            in case launch script_dir node_clk node_body tasks outputs rest of
                 (runs, err) \<Rightarrow> (run # runs, err))
      else ([], Some IndexError))"

text \<open>The results that the started nodes have put into the queue, in the order in which
  the nodes were started.\<close>

definition queued :: "node_run list \<Rightarrow> node_result list" where
  "queued runs = concat (map (\<lambda>run. case snd (fst run) of None \<Rightarrow> [] | Some r \<Rightarrow> [r]) runs)"

record report =
  node_times :: "node_result list"
  total_distributed_time :: real
  efficiency :: real

text \<open>
  \<open>main\<close> with the node count as an argument. \<open>clk\<close> holds the readings of the master
  process (\<open>seq_start\<close>, \<open>dist_start_time\<close>, \<open>dist_end_time\<close>), \<open>node_clk\<close> and
  \<open>node_body\<close> those of each node. \<open>finished\<close> gives, for a node id, the instant at which
  its result entered the queue: the queue hands the results to the master in that order,
  and the master sorts what it has drained. \<open>join\<close> returns for a node that ended with an
  exception as it does for any other, so the master goes on to its report.
\<close>

definition distributed_run :: "int \<Rightarrow> path \<Rightarrow> (nat \<Rightarrow> real) \<Rightarrow> (nat \<Rightarrow> nat \<Rightarrow> real) \<Rightarrow> (nat \<Rightarrow> imaging)
    \<Rightarrow> (nat \<Rightarrow> real) \<Rightarrow> path list
    \<Rightarrow> (py_error + report) \<times> node_run list" where
  "distributed_run num_nodes script_dir clk node_clk node_body finished all_image_paths =
     (case perf_counter clk fresh_world of (seq_start, m1) \<Rightarrow>
        (case node_tasks num_nodes all_image_paths of
           Inl e \<Rightarrow> (Inl e, [])
         | Inr tasks \<Rightarrow>
             (case perf_counter clk m1 of (dist_start_time, m2) \<Rightarrow>
                (case launch script_dir node_clk node_body tasks (node_outputs script_dir)
                        (py_range num_nodes) of
                   (runs, Some e) \<Rightarrow> (Inl e, runs)
                 | (runs, None) \<Rightarrow>
                     (case perf_counter clk m2 of (dist_end_time, m3) \<Rightarrow>
                        (let total = dist_end_time - dist_start_time;
                             queue = sort_key (\<lambda>r. finished (fst r)) (queued runs);
                             drained = sort queue
                         in if total = 0 then (Inl ZeroDivisionError, runs)
                            else (Inr \<lparr>node_times = drained,
                                       total_distributed_time = total,
                                       efficiency = SEQUENTIAL_TIME / total\<rparr>, runs)))))))"

definition distributed_main :: "path \<Rightarrow> (nat \<Rightarrow> real) \<Rightarrow> (nat \<Rightarrow> nat \<Rightarrow> real) \<Rightarrow> (nat \<Rightarrow> imaging)
    \<Rightarrow> (nat \<Rightarrow> real) \<Rightarrow> path list
    \<Rightarrow> (py_error + report) \<times> node_run list" where
  "distributed_main = distributed_run NUM_NODES"

section \<open>The partitioner as the specification words it\<close>

text \<open>
  These three definitions follow the specification, not the code: the chunk size is the
  ceiling of \<open>N / k\<close>, partition \<open>i\<close> holds the elements from \<open>i * chunk_size\<close> up to
  \<open>min N ((i + 1) * chunk_size)\<close>, and there are \<open>k\<close> partitions. They are compared with
  \<open>node_tasks\<close> below.
\<close>

definition spec_chunk_size :: "nat \<Rightarrow> nat \<Rightarrow> nat" where
  "spec_chunk_size n k = nat \<lceil>real n / real k\<rceil>"

definition spec_partition :: "'a list \<Rightarrow> nat \<Rightarrow> nat \<Rightarrow> 'a list" where
  "spec_partition xs k i =
     (let chunk_size = spec_chunk_size (length xs) k
      in take (min (length xs) ((i + 1) * chunk_size) - i * chunk_size)
           (drop (i * chunk_size) xs))"

definition spec_split :: "'a list \<Rightarrow> nat \<Rightarrow> 'a list list" where
  "spec_split xs k = map (spec_partition xs k) [0 ..< k]"

section \<open>A small batch\<close>

text \<open>Three units and an imaging body that fails on the second unit of every pass over
  them, with an error line the console takes; the theorems below are exercised on it.\<close>

definition demo_tasks :: "(path \<times> path) list" where
  "demo_tasks =
     [([''d'', ''images_dataset'', ''a.png''], [''d'', ''out'', ''a.png'']),
      ([''d'', ''images_dataset'', ''b.png''], [''d'', ''out'', ''b.png'']),
      ([''d'', ''images_dataset'', ''c.png''], [''d'', ''out'', ''c.png''])]"

definition demo_body :: imaging where
  "demo_body n p =
     (if n mod 3 = 1 then Raises ''cannot identify image file'' Prints else Completes)"


text \<open>The same failure on a file whose name the console cannot encode.\<close>

definition demo_refused_body :: imaging where
  "demo_refused_body n p =
     (if n mod 3 = 1 then Raises ''cannot identify image file'' Refuses else Completes)"

definition demo_found :: "path list" where
  "demo_found = map fst demo_tasks"

text \<open>A clock given by the list of its readings.\<close>

definition clock_of :: "real list \<Rightarrow> nat \<Rightarrow> real" where
  "clock_of readings n = (if n < length readings then readings ! n else 0)"

definition demo_node_clk :: "nat \<Rightarrow> nat \<Rightarrow> real" where
  "demo_node_clk node_id = clock_of [0, real node_id]"

definition demo_node_body :: "nat \<Rightarrow> imaging" where
  "demo_node_body node_id = demo_body"

definition demo_refused_node_body :: "nat \<Rightarrow> imaging" where
  "demo_refused_node_body node_id = demo_refused_body"

text \<open>Node 2 finishes before node 1.\<close>

definition demo_finished :: "nat \<Rightarrow> real" where
  "demo_finished node_id = - real node_id"

section \<open>Properties of the partitioner\<close>

lemma slice_to_from: "slice_to xs i @ slice_from xs i = xs"
  by (simp add: slice_to_def slice_from_def)

lemma half_ceiling: "\<lceil>real n / 2\<rceil> = int ((n + 1) div 2)"
proof -
  have "\<lceil>real_of_int (int n) / real_of_int 2\<rceil> = - ((- int n) div 2)"
    by (rule ceiling_divide_eq_div)
  then show ?thesis by simp
qed

lemma half_le: "(n + 1) div 2 \<le> (n::nat)"
  by linarith

lemma spec_chunk_size_two: "spec_chunk_size n 2 = (n + 1) div 2"
  using half_ceiling [of n] by (simp add: spec_chunk_size_def)

lemma images_per_node_two: "images_per_node n 2 = Inr (int ((n + 1) div 2))"
  using half_ceiling [of n] by (simp add: images_per_node_def)

lemma node_tasks_two_nodes:
  "node_tasks 2 xs = Inr [take ((length xs + 1) div 2) xs, drop ((length xs + 1) div 2) xs]"
  using half_le [of "length xs"]
  by (simp add: node_tasks_def images_per_node_two slice_to_def slice_from_def slice_bound_def
      min_def)

lemma node_tasks_slices:
  "k \<noteq> 0 \<Longrightarrow> \<exists>c. images_per_node (length xs) k = Inr c \<and>
     node_tasks k xs = Inr [slice_to xs c, slice_from xs c]"
  by (simp add: node_tasks_def images_per_node_def)

lemma start_of_two:
  "start_of [p1, p2] 0 = 0"
  "start_of [p1, p2] (Suc 0) = length p1"
  "start_of [p1, p2] (Suc (Suc 0)) = length p1 + length p2"
  by (simp_all add: start_of_def)

text \<open>With two partitions, a position of the batch lies in the first one when it is
  below the length of the first, and in the second one otherwise; never in both.\<close>

lemma exactly_one_of_two:
  assumes "j < length (p1 @ p2)"
  shows "\<exists>!i. i < length [p1, p2] \<and> start_of [p1, p2] i \<le> j \<and> j < start_of [p1, p2] (Suc i)
            \<and> [p1, p2] ! i ! (j - start_of [p1, p2] i) = (p1 @ p2) ! j"
proof (cases "j < length p1")
  case True
  show ?thesis
  proof (rule ex1I [of _ 0])
    show "0 < length [p1, p2] \<and> start_of [p1, p2] 0 \<le> j \<and> j < start_of [p1, p2] (Suc 0)
            \<and> [p1, p2] ! 0 ! (j - start_of [p1, p2] 0) = (p1 @ p2) ! j"
      using True by (simp add: start_of_two nth_append)
  next
    fix i
    assume a: "i < length [p1, p2] \<and> start_of [p1, p2] i \<le> j \<and> j < start_of [p1, p2] (Suc i)
            \<and> [p1, p2] ! i ! (j - start_of [p1, p2] i) = (p1 @ p2) ! j"
    then have "i = 0 \<or> i = Suc 0" by auto
    then show "i = 0"
    proof
      assume "i = Suc 0"
      with a True show ?thesis by (simp add: start_of_two)
    qed simp
  qed
next
  case False
  show ?thesis
  proof (rule ex1I [of _ "Suc 0"])
    show "Suc 0 < length [p1, p2] \<and> start_of [p1, p2] (Suc 0) \<le> j
            \<and> j < start_of [p1, p2] (Suc (Suc 0))
            \<and> [p1, p2] ! Suc 0 ! (j - start_of [p1, p2] (Suc 0)) = (p1 @ p2) ! j"
      using False assms by (simp add: start_of_two nth_append)
  next
    fix i
    assume a: "i < length [p1, p2] \<and> start_of [p1, p2] i \<le> j \<and> j < start_of [p1, p2] (Suc i)
            \<and> [p1, p2] ! i ! (j - start_of [p1, p2] i) = (p1 @ p2) ! j"
    then have "i = 0 \<or> i = Suc 0" by auto
    then show "i = Suc 0"
    proof
      assume "i = 0"
      with a False show ?thesis by (simp add: start_of_two)
    qed simp
  qed
qed

lemma disjoint_of_two:
  assumes "distinct (p1 @ p2)" and "a < length [p1, p2]" and "b < length [p1, p2]" and "a \<noteq> b"
  shows "set ([p1, p2] ! a) \<inter> set ([p1, p2] ! b) = {}"
proof -
  from assms(2,3,4) have "(a = 0 \<and> b = Suc 0) \<or> (a = Suc 0 \<and> b = 0)" by auto
  with assms(1) show ?thesis by auto
qed

text \<open>
  Claim C2. For a batch that is not empty and a degree \<open>k\<close> of at least one, the list of
  partitions the script builds (\<open>node_tasks\<close>, node 1 first) covers the batch without
  overlap and in order: concatenated it is the batch; the lengths add up to the length of
  the batch; every position of the batch lies in exactly one partition, where it holds the
  same unit; and when the paths of the batch are distinct, two different partitions share
  no unit.
\<close>

theorem partition_cover:
  assumes "all_image_paths \<noteq> []" and "1 \<le> k"
  shows "\<exists>parts. node_tasks k all_image_paths = Inr parts
           \<and> concat parts = all_image_paths
           \<and> sum_list (map length parts) = length all_image_paths
           \<and> (\<forall>j < length all_image_paths.
                 \<exists>!i. i < length parts \<and> start_of parts i \<le> j \<and> j < start_of parts (Suc i)
                      \<and> parts ! i ! (j - start_of parts i) = all_image_paths ! j)
           \<and> (distinct all_image_paths \<longrightarrow>
                 (\<forall>a < length parts. \<forall>b < length parts.
                    a \<noteq> b \<longrightarrow> set (parts ! a) \<inter> set (parts ! b) = {}))"
proof -
  from assms(2) have "k \<noteq> 0" by simp
  then obtain c where nt: "node_tasks k all_image_paths
      = Inr [slice_to all_image_paths c, slice_from all_image_paths c]"
    using node_tasks_slices by blast
  let ?p1 = "slice_to all_image_paths c" and ?p2 = "slice_from all_image_paths c"
  have cat: "?p1 @ ?p2 = all_image_paths" by (rule slice_to_from)
  have c1: "concat [?p1, ?p2] = all_image_paths" using cat by simp
  have c2: "sum_list (map length [?p1, ?p2]) = length all_image_paths"
    using arg_cong [OF cat, of length] by simp
  have c3: "\<forall>j < length all_image_paths.
      \<exists>!i. i < length [?p1, ?p2] \<and> start_of [?p1, ?p2] i \<le> j \<and> j < start_of [?p1, ?p2] (Suc i)
           \<and> [?p1, ?p2] ! i ! (j - start_of [?p1, ?p2] i) = all_image_paths ! j"
    using exactly_one_of_two [of _ ?p1 ?p2] unfolding cat by blast
  have c4: "distinct all_image_paths \<longrightarrow>
      (\<forall>a < length [?p1, ?p2]. \<forall>b < length [?p1, ?p2].
         a \<noteq> b \<longrightarrow> set ([?p1, ?p2] ! a) \<inter> set ([?p1, ?p2] ! b) = {})"
    using disjoint_of_two [of ?p1 ?p2] unfolding cat by blast
  from nt c1 c2 c3 c4 show ?thesis by blast
qed

theorem partition_cover_witness:
  "\<exists>parts. node_tasks 3 [10, 20, 30, 40, 50 :: nat] = Inr parts
      \<and> concat parts = [10, 20, 30, 40, 50]
      \<and> sum_list (map length parts) = 5
      \<and> set (parts ! 0) \<inter> set (parts ! 1) = {}"
proof -
  have h1: "[10, 20, 30, 40, 50 :: nat] \<noteq> []" by simp
  have h2: "(1::int) \<le> 3" by simp
  have d: "distinct [10, 20, 30, 40, 50 :: nat]" by simp
  from partition_cover [OF h1 h2] obtain parts where
    p: "node_tasks 3 [10, 20, 30, 40, 50 :: nat] = Inr parts"
       "concat parts = [10, 20, 30, 40, 50]"
       "sum_list (map length parts) = length [10, 20, 30, 40, 50 :: nat]"
       "distinct [10, 20, 30, 40, 50 :: nat] \<longrightarrow>
          (\<forall>a < length parts. \<forall>b < length parts.
             a \<noteq> b \<longrightarrow> set (parts ! a) \<inter> set (parts ! b) = {})"
    by blast
  have "node_tasks 3 [10, 20, 30, 40, 50 :: nat] = Inr [[10, 20], [30, 40, 50]]"
    by (simp add: node_tasks_def images_per_node_def slice_to_def slice_from_def slice_bound_def)
  with p(1) have "length parts = 2" by auto
  with p(4) d have "set (parts ! 0) \<inter> set (parts ! 1) = {}" by simp
  with p(1,2,3) show ?thesis by simp
qed

lemma spec_split_two:
  "spec_split xs 2 = [take ((length xs + 1) div 2) xs, drop ((length xs + 1) div 2) xs]"
proof -
  let ?c = "(length xs + 1) div 2"
  have upt: "[0 ..< 2] = [0, Suc 0]" by (simp add: upt_rec)
  have p0: "spec_partition xs 2 0 = take ?c xs"
    using half_le [of "length xs"]
    by (simp add: spec_partition_def spec_chunk_size_two min_def Let_def)
  have "min (length xs) (2 * ?c) - ?c = length xs - ?c" by (simp add: min_def) linarith
  then have p1: "spec_partition xs 2 (Suc 0) = drop ?c xs"
    by (simp add: spec_partition_def spec_chunk_size_two Let_def)
  show ?thesis by (simp add: spec_split_def upt p0 p1)
qed

text \<open>
  Claim C3, as amended. The script always builds exactly two slices, whatever the degree:
  with \<open>c\<close> the ceiling of \<open>N / k\<close>, they are \<open>units[0:c]\<close> and \<open>units[c:]\<close>. For the
  degree the script has, \<open>NUM_NODES = 2\<close>, these two slices are the partitions 0 and 1 of
  the stated formula, and of five units node 1 receives the first three and node 2 the
  last two.
\<close>

theorem partitioner_two_slices:
  "(k \<noteq> 0 \<longrightarrow>
      node_tasks k units
        = Inr [slice_to units \<lceil>real (length units) / real_of_int k\<rceil>,
               slice_from units \<lceil>real (length units) / real_of_int k\<rceil>])
   \<and> node_tasks NUM_NODES units = Inr (spec_split units 2)
   \<and> node_tasks NUM_NODES [u0, u1, u2, u3, u4] = Inr [[u0, u1, u2], [u3, u4]]"
proof -
  have a: "k \<noteq> 0 \<longrightarrow>
      node_tasks k units
        = Inr [slice_to units \<lceil>real (length units) / real_of_int k\<rceil>,
               slice_from units \<lceil>real (length units) / real_of_int k\<rceil>]"
    by (simp add: node_tasks_def images_per_node_def)
  have b: "node_tasks NUM_NODES units = Inr (spec_split units 2)"
    by (simp add: NUM_NODES_def node_tasks_two_nodes spec_split_two)
  have c: "node_tasks NUM_NODES [u0, u1, u2, u3, u4] = Inr [[u0, u1, u2], [u3, u4]]"
    by (simp add: NUM_NODES_def node_tasks_two_nodes)
  from a b c show ?thesis by blast
qed

theorem partitioner_two_slices_witness:
  "node_tasks 2 [10, 20, 30, 40, 50, 60, 70 :: nat] = Inr [[10, 20, 30, 40], [50, 60, 70]]
   \<and> spec_split [10, 20, 30, 40, 50, 60, 70 :: nat] 2 = [[10, 20, 30, 40], [50, 60, 70]]
   \<and> node_tasks NUM_NODES [1, 2, 3, 4, 5 :: nat] = Inr [[1, 2, 3], [4, 5]]"
proof -
  have h: "(2::int) \<noteq> 0" by simp
  note t = partitioner_two_slices [of 2 "[10, 20, 30, 40, 50, 60, 70 :: nat]" "1::nat" 2 3 4 5]
  from t h
  have a: "node_tasks 2 [10, 20, 30, 40, 50, 60, 70 :: nat]
        = Inr [slice_to [10, 20, 30, 40, 50, 60, 70] \<lceil>real 7 / real_of_int 2\<rceil>,
               slice_from [10, 20, 30, 40, 50, 60, 70] \<lceil>real 7 / real_of_int 2\<rceil>]"
    by simp
  from t have b: "node_tasks NUM_NODES [10, 20, 30, 40, 50, 60, 70 :: nat]
        = Inr (spec_split [10, 20, 30, 40, 50, 60, 70] 2)"
    by blast
  from t have c: "node_tasks NUM_NODES [1, 2, 3, 4, 5 :: nat] = Inr [[1, 2, 3], [4, 5]]"
    by blast
  from a have a': "node_tasks 2 [10, 20, 30, 40, 50, 60, 70 :: nat]
      = Inr [[10, 20, 30, 40], [50, 60, 70]]"
    by (simp add: slice_to_def slice_from_def slice_bound_def)
  from b a' c show ?thesis by (simp add: NUM_NODES_def)
qed

text \<open>With a degree of three and five units the script builds two slices, of two and of
  three units, where the stated formula gives three partitions of two, two and one.\<close>

theorem partitioner_three_counterexample:
  "node_tasks 3 [1, 2, 3, 4, 5 :: nat] = Inr [[1, 2], [3, 4, 5]]
   \<and> spec_split [1, 2, 3, 4, 5 :: nat] 3 = [[1, 2], [3, 4], [5]]"
  by (simp add: node_tasks_def images_per_node_def slice_to_def slice_from_def slice_bound_def
      spec_split_def spec_partition_def spec_chunk_size_def upt_rec)

section \<open>Properties of process\_image and of the loops over a batch\<close>

lemma parallel_process_image_step:
  "parallel_process_image body t w = (r, w1) \<Longrightarrow>
     calls w1 = calls w @ [t] \<and> ticks w1 = ticks w
     \<and> r = (case body (length (calls w)) t of
              Completes \<Rightarrow> Inr (PyBool True)
            | Raises e Prints \<Rightarrow> Inr (PyBool False)
            | Raises e Refuses \<Rightarrow> Inl UnicodeEncodeError)
     \<and> errors_printed w1
         = errors_printed w
           @ (case body (length (calls w)) t of
                Completes \<Rightarrow> [] | Raises e Prints \<Rightarrow> [(fst t, e)] | Raises e Refuses \<Rightarrow> [])"
  by (cases t) (auto simp: parallel_process_image_def Let_def split: try_body.splits console.splits)

text \<open>The other two functions do what the one of \<open>parallel_process.py\<close> does, and return
  \<open>None\<close> where it returns a truth value.\<close>

lemma sequential_as_parallel:
  "sequential_process_image body t w
     = (map_sum id (\<lambda>r. PyNone) (fst (parallel_process_image body t w)),
        snd (parallel_process_image body t w))"
  by (cases t) (simp add: sequential_process_image_def parallel_process_image_def Let_def
      split: try_body.splits console.splits)

lemma distributed_as_sequential:
  "distributed_process_image = sequential_process_image"
  by (intro ext) (simp add: sequential_process_image_def distributed_process_image_def)

lemma run_each_sequential:
  "run_each (sequential_process_image body) tasks w
     = (map_sum id (map (\<lambda>r. PyNone)) (fst (run_each (parallel_process_image body) tasks w)),
        snd (run_each (parallel_process_image body) tasks w))"
proof (induction tasks arbitrary: w)
  case Nil
  show ?case by simp
next
  case (Cons t tasks)
  obtain r w1 where s: "parallel_process_image body t w = (r, w1)" by force
  have s': "sequential_process_image body t w = (map_sum id (\<lambda>r. PyNone) r, w1)"
    using sequential_as_parallel [of body t w] s by simp
  from s s' Cons.IH [of w1] show ?case
    by (cases r) (auto split: prod.splits sum.splits)
qed

text \<open>A pass that returns its results has invoked \<open>process_image\<close> once for every unit, in
  order, and no error line of it was refused.\<close>

lemma run_each_returned:
  assumes "run_each (parallel_process_image body) tasks w = (Inr rs, w')"
  shows "length rs = length tasks"
    and "calls w' = calls w @ tasks"
    and "ticks w' = ticks w"
    and "\<forall>i < length tasks.
           rs ! i = PyBool (body (length (calls w) + i) (tasks ! i) = Completes)"
    and "\<forall>i < length tasks. \<forall>e. body (length (calls w) + i) (tasks ! i) \<noteq> Raises e Refuses"
    and "\<forall>i < length tasks. \<forall>e c. body (length (calls w) + i) (tasks ! i) = Raises e c \<longrightarrow>
           (fst (tasks ! i), e) \<in> set (errors_printed w')"
    and "set (errors_printed w) \<subseteq> set (errors_printed w')"
    and "length (errors_printed w')
           = length (errors_printed w) + length (filter (\<lambda>r. r = PyBool False) rs)"
    and "length (filter (\<lambda>r. r = PyBool True) rs) + length (filter (\<lambda>r. r = PyBool False) rs)
           = length tasks"
  using assms
proof (induction tasks arbitrary: w rs)
  case Nil
  {
    case 1 then show ?case by simp
  next
    case 2 then show ?case by simp
  next
    case 3 then show ?case by simp
  next
    case 4 then show ?case by simp
  next
    case 5 then show ?case by simp
  next
    case 6 then show ?case by simp
  next
    case 7 then show ?case by simp
  next
    case 8 then show ?case by simp
  next
    case 9 then show ?case by simp
  }
next
  case (Cons t tasks)
  {
    fix w rs
    assume run: "run_each (parallel_process_image body) (t # tasks) w = (Inr rs, w')"
    obtain r w1 where s: "parallel_process_image body t w = (r, w1)" by force
    note st = parallel_process_image_step [OF s]
    from run s obtain v where r: "r = Inr v" by (cases r) auto
    from run s r obtain rs1 where
      rest: "run_each (parallel_process_image body) tasks w1 = (Inr rs1, w')"
      and rs: "rs = v # rs1"
      by (auto split: prod.splits sum.splits)
    have c1: "calls w1 = calls w @ [t]" using st by simp
    have v: "v = PyBool (body (length (calls w)) t = Completes)"
      and nr: "\<forall>e. body (length (calls w)) t \<noteq> Raises e Refuses"
      and ep: "errors_printed w1 = errors_printed w
           @ (case body (length (calls w)) t of
                Completes \<Rightarrow> [] | Raises e Prints \<Rightarrow> [(fst t, e)] | Raises e Refuses \<Rightarrow> [])"
      using st r by (auto split: try_body.splits console.splits)
    have "length rs = length (t # tasks)"
      using Cons.IH(1) [OF rest] rs by simp
    moreover have "calls w' = calls w @ t # tasks"
      using Cons.IH(2) [OF rest] c1 by simp
    moreover have "ticks w' = ticks w"
      using Cons.IH(3) [OF rest] st by simp
    moreover have "\<forall>i < length (t # tasks).
           rs ! i = PyBool (body (length (calls w) + i) ((t # tasks) ! i) = Completes)"
    proof (intro allI impI)
      fix i assume "i < length (t # tasks)"
      then show "rs ! i = PyBool (body (length (calls w) + i) ((t # tasks) ! i) = Completes)"
        using Cons.IH(4) [OF rest] rs v c1 by (cases i) simp_all
    qed
    moreover have "\<forall>i < length (t # tasks). \<forall>e.
        body (length (calls w) + i) ((t # tasks) ! i) \<noteq> Raises e Refuses"
    proof (intro allI impI)
      fix i e assume "i < length (t # tasks)"
      then show "body (length (calls w) + i) ((t # tasks) ! i) \<noteq> Raises e Refuses"
        using Cons.IH(5) [OF rest] nr c1 by (cases i) simp_all
    qed
    moreover have "\<forall>i < length (t # tasks). \<forall>e c.
        body (length (calls w) + i) ((t # tasks) ! i) = Raises e c \<longrightarrow>
           (fst ((t # tasks) ! i), e) \<in> set (errors_printed w')"
    proof (intro allI impI)
      fix i e c assume i: "i < length (t # tasks)"
        and b: "body (length (calls w) + i) ((t # tasks) ! i) = Raises e c"
      show "(fst ((t # tasks) ! i), e) \<in> set (errors_printed w')"
      proof (cases i)
        case 0
        with b nr have "body (length (calls w)) t = Raises e Prints" by (cases c) auto
        with ep have "(fst t, e) \<in> set (errors_printed w1)" by simp
        with Cons.IH(7) [OF rest] 0 show ?thesis by auto
      next
        case (Suc j)
        with i b c1 Cons.IH(6) [OF rest] show ?thesis by simp
      qed
    qed
    moreover have "set (errors_printed w) \<subseteq> set (errors_printed w')"
      using Cons.IH(7) [OF rest] ep by auto
    moreover have "length (errors_printed w')
           = length (errors_printed w) + length (filter (\<lambda>r. r = PyBool False) rs)"
      using Cons.IH(8) [OF rest] ep rs v nr
      by (auto split: try_body.splits console.splits)
    moreover have "length (filter (\<lambda>r. r = PyBool True) rs)
          + length (filter (\<lambda>r. r = PyBool False) rs) = length (t # tasks)"
      using Cons.IH(9) [OF rest] rs v by auto
    ultimately have "length rs = length (t # tasks)
      \<and> calls w' = calls w @ t # tasks
      \<and> ticks w' = ticks w
      \<and> (\<forall>i < length (t # tasks).
           rs ! i = PyBool (body (length (calls w) + i) ((t # tasks) ! i) = Completes))
      \<and> (\<forall>i < length (t # tasks). \<forall>e.
           body (length (calls w) + i) ((t # tasks) ! i) \<noteq> Raises e Refuses)
      \<and> (\<forall>i < length (t # tasks). \<forall>e c.
           body (length (calls w) + i) ((t # tasks) ! i) = Raises e c \<longrightarrow>
           (fst ((t # tasks) ! i), e) \<in> set (errors_printed w'))
      \<and> set (errors_printed w) \<subseteq> set (errors_printed w')
      \<and> length (errors_printed w')
           = length (errors_printed w) + length (filter (\<lambda>r. r = PyBool False) rs)
      \<and> length (filter (\<lambda>r. r = PyBool True) rs)
          + length (filter (\<lambda>r. r = PyBool False) rs) = length (t # tasks)"
      by blast
  }
  note all = this
  {
    case 1 from all [OF 1] show ?case by blast
  next
    case 2 from all [OF 2] show ?case by blast
  next
    case 3 from all [OF 3] show ?case by blast
  next
    case 4 from all [OF 4] show ?case by blast
  next
    case 5 from all [OF 5] show ?case by blast
  next
    case 6 from all [OF 6] show ?case by blast
  next
    case 7 from all [OF 7] show ?case by blast
  next
    case 8 from all [OF 8] show ?case by blast
  next
    case 9 from all [OF 9] show ?case by blast
  }
qed


lemma run_each_prints:
  assumes "\<forall>i < length tasks. \<forall>e. body (length (calls w) + i) (tasks ! i) \<noteq> Raises e Refuses"
  shows "\<exists>rs w'. run_each (parallel_process_image body) tasks w = (Inr rs, w')"
  using assms
proof (induction tasks arbitrary: w)
  case Nil
  show ?case by simp
next
  case (Cons t tasks)
  obtain r w1 where s: "parallel_process_image body t w = (r, w1)" by force
  note st = parallel_process_image_step [OF s]
  from Cons.prems have "\<forall>e. body (length (calls w)) t \<noteq> Raises e Refuses" by fastforce
  with st obtain v where r: "r = Inr v" by (auto split: try_body.splits console.splits)
  from Cons.prems st have "\<forall>i < length tasks. \<forall>e.
      body (length (calls w1) + i) (tasks ! i) \<noteq> Raises e Refuses"
    by fastforce
  from Cons.IH [OF this] obtain rs w' where
    "run_each (parallel_process_image body) tasks w1 = (Inr rs, w')" by blast
  with s r show ?case by simp
qed

lemma run_each_prints_all:
  "prints_all body \<or> tasks = [] \<Longrightarrow>
     \<exists>rs w'. run_each (parallel_process_image body) tasks w = (Inr rs, w')"
  by (rule run_each_prints) (auto simp: prints_all_def simp del: split_paired_All)

lemma run_each_append:
  "run_each f (xs @ ys) w =
     (case run_each f xs w of
        (Inl e, w1) \<Rightarrow> (Inl e, w1)
      | (Inr rs, w1) \<Rightarrow>
          (case run_each f ys w1 of
             (Inl e, w2) \<Rightarrow> (Inl e, w2)
           | (Inr rs', w2) \<Rightarrow> (Inr (rs @ rs'), w2)))"
  by (induction xs arbitrary: w) (auto split: prod.splits sum.splits)

lemma concat_chunks_of:
  "0 < chunksize \<or> xs = [] \<Longrightarrow> concat (chunks_of chunksize xs) = xs"
proof (induction chunksize xs rule: chunks_of.induct)
  case (1 chunksize xs)
  show ?case
  proof (cases "chunksize = 0 \<or> xs = []")
    case True
    with "1.prems" show ?thesis by auto
  next
    case False
    with "1.IH" have "concat (chunks_of chunksize (drop chunksize xs)) = drop chunksize xs"
      by simp
    with False show ?thesis by (subst chunks_of.simps) simp
  qed
qed

lemma pool_chunksize_positive:
  assumes "0 < n"
  shows "0 < pool_chunksize n processes"
proof (cases "n mod (processes * 4) = 0")
  case True
  with assms have "processes * 4 dvd n" by auto
  with assms have "processes * 4 \<le> n" by (simp add: dvd_imp_le)
  moreover from True assms have "0 < processes * 4" by (cases "processes * 4 = 0") auto
  ultimately have "0 < n div (processes * 4)" by (simp add: div_greater_zero_iff)
  with True assms show ?thesis by (simp add: pool_chunksize_def)
next
  case False
  with assms show ?thesis by (simp add: pool_chunksize_def)
qed

lemma run_chunks_returned:
  "run_chunks f cs w = (Inr rs, w') \<longleftrightarrow> run_each f (concat cs) w = (Inr rs, w')"
proof (induction cs arbitrary: w rs w')
  case Nil
  show ?case by auto
next
  case (Cons c cs)
  obtain r w1 where c: "run_each f c w = (r, w1)" by force
  show ?case
  proof (cases r)
    case (Inl e)
    with c show ?thesis by (simp add: run_each_append split: prod.splits sum.splits)
  next
    case (Inr rs0)
    obtain rest w2 where rest: "run_chunks f cs w1 = (rest, w2)" by force
    obtain rest' w2' where rest': "run_each f (concat cs) w1 = (rest', w2')" by force
    show ?thesis
    proof (cases rest)
      case (Inl e)
      have "\<not> (\<exists>x. rest' = Inr x \<and> True)"
      proof
        assume "\<exists>x. rest' = Inr x \<and> True"
        then obtain x where "rest' = Inr x" by blast
        with rest' Cons.IH [of w1 x w2'] have "run_chunks f cs w1 = (Inr x, w2')" by simp
        with rest Inl show False by simp
      qed
      then obtain e' where "rest' = Inl e'" by (cases rest') auto
      with c Inr rest Inl rest' show ?thesis by (simp add: run_each_append)
    next
      case (Inr rss)
      with rest Cons.IH [of w1 rss w2] have "run_each f (concat cs) w1 = (Inr rss, w2)" by simp
      with c \<open>r = Inr rs0\<close> rest Inr show ?thesis by (simp add: run_each_append)
    qed
  qed
qed

lemma pool_map_returned:
  "pool_map cnt f tasks w = (Inr rs, w') \<longleftrightarrow> 1 \<le> cnt \<and> run_each f tasks w = (Inr rs, w')"
proof (cases "cnt < 1")
  case True
  then show ?thesis by (simp add: pool_map_def)
next
  case False
  have "concat (chunks_of (pool_chunksize (length tasks) (nat cnt)) tasks) = tasks"
    by (rule concat_chunks_of) (cases tasks, simp_all add: pool_chunksize_positive)
  with False show ?thesis by (simp add: pool_map_def run_chunks_returned)
qed

section \<open>Properties of the timing loop and of the main functions\<close>

text \<open>One round of the loop whose pool run returns its results.\<close>

lemma pool_tests_round:
  assumes "pool_map cnt (parallel_process_image body) tasks (w\<lparr>ticks := Suc (ticks w)\<rparr>)
             = (Inr rs, w2)"
  shows "\<exists>w3. calls w3 = calls w @ tasks \<and> ticks w3 = ticks w + 2 \<and> 1 \<le> cnt \<and>
    pool_tests clk body tasks b (cnt # rest) tbl w =
      (if clk (ticks w + 1) = clk (ticks w) then (Inl ZeroDivisionError, w3)
       else pool_tests clk body tasks b rest
              (tbl @ [(cnt, clk (ticks w + 1) - clk (ticks w),
                       b / (clk (ticks w + 1) - clk (ticks w)))]) w3)"
proof -
  from assms have c1: "1 \<le> cnt"
    and r: "run_each (parallel_process_image body) tasks (w\<lparr>ticks := Suc (ticks w)\<rparr>)
              = (Inr rs, w2)"
    by (simp_all add: pool_map_returned)
  from run_each_returned(2,3) [OF r] have c: "calls w2 = calls w @ tasks"
    and t: "ticks w2 = Suc (ticks w)" by simp_all
  let ?w3 = "w2\<lparr>ticks := Suc (ticks w2)\<rparr>"
  have "calls ?w3 = calls w @ tasks" "ticks ?w3 = ticks w + 2" using c t by simp_all
  moreover have "pool_tests clk body tasks b (cnt # rest) tbl w =
      (if clk (ticks w + 1) = clk (ticks w) then (Inl ZeroDivisionError, ?w3)
       else pool_tests clk body tasks b rest
              (tbl @ [(cnt, clk (ticks w + 1) - clk (ticks w),
                       b / (clk (ticks w + 1) - clk (ticks w)))]) ?w3)"
    using assms t by (simp add: perf_counter_def Let_def)
  ultimately show ?thesis using c1 by blast
qed

lemma pool_tests_raised:
  assumes "pool_map cnt (parallel_process_image body) tasks (w\<lparr>ticks := Suc (ticks w)\<rparr>)
             = (Inl e, w2)"
  shows "pool_tests clk body tasks b (cnt # rest) tbl w = (Inl e, w2)"
  using assms by (simp add: perf_counter_def)

lemma pool_tests_step:
  assumes "1 \<le> cnt" and "prints_all body \<or> tasks = []"
  shows "\<exists>w3. calls w3 = calls w @ tasks \<and> ticks w3 = ticks w + 2 \<and>
    pool_tests clk body tasks b (cnt # rest) tbl w =
      (if clk (ticks w + 1) = clk (ticks w) then (Inl ZeroDivisionError, w3)
       else pool_tests clk body tasks b rest
              (tbl @ [(cnt, clk (ticks w + 1) - clk (ticks w),
                       b / (clk (ticks w + 1) - clk (ticks w)))]) w3)"
proof -
  from run_each_prints_all [OF assms(2), of "w\<lparr>ticks := Suc (ticks w)\<rparr>"] obtain rs w2 where
    "run_each (parallel_process_image body) tasks (w\<lparr>ticks := Suc (ticks w)\<rparr>) = (Inr rs, w2)"
    by blast
  with assms(1) have "pool_map cnt (parallel_process_image body) tasks
      (w\<lparr>ticks := Suc (ticks w)\<rparr>) = (Inr rs, w2)"
    by (simp add: pool_map_returned)
  from pool_tests_round [OF this, of clk b rest tbl] show ?thesis by blast
qed

lemma pool_tests_refused:
  assumes "cnt < 1"
  shows "pool_tests clk body tasks b (cnt # rest) tbl w
           = (Inl ValueError, w\<lparr>ticks := Suc (ticks w)\<rparr>)"
  using assms by (simp add: perf_counter_def pool_map_def)

text \<open>The row of the i-th pool run when the loop starts at clock reading t.\<close>

lemma pool_tests_completes:
  assumes "\<forall>i < length counts. 1 \<le> counts ! i \<and> clk (t + 2 * i + 1) \<noteq> clk (t + 2 * i)"
    and "ticks w = t" and "prints_all body \<or> tasks = []"
  shows "\<exists>w'. pool_tests clk body tasks b counts tbl w
            = (Inr (tbl @ map (\<lambda>i. (counts ! i, clk (t + 2 * i + 1) - clk (t + 2 * i),
                                     b / (clk (t + 2 * i + 1) - clk (t + 2 * i))))
                            [0 ..< length counts]), w')
          \<and> calls w' = calls w @ concat (replicate (length counts) tasks)"
  using assms(1,2)
proof (induction counts arbitrary: tbl w t)
  case Nil
  then show ?case by simp
next
  case (Cons cnt rest)
  from Cons.prems(1) have c0: "1 \<le> cnt" and z0: "clk (t + 1) \<noteq> clk t" by fastforce+
  from Cons.prems(1) have rest: "\<forall>i < length rest.
      1 \<le> rest ! i \<and> clk (t + 2 + 2 * i + 1) \<noteq> clk (t + 2 + 2 * i)"
    by fastforce
  from pool_tests_step [OF c0 assms(3), of w clk b rest tbl] Cons.prems(2) z0
  obtain w3 where w3: "calls w3 = calls w @ tasks" "ticks w3 = t + 2"
    "pool_tests clk body tasks b (cnt # rest) tbl w
       = pool_tests clk body tasks b rest (tbl @ [(cnt, clk (t + 1) - clk t, b / (clk (t + 1) - clk t))]) w3"
    by auto
  from Cons.IH [OF rest w3(2), of "tbl @ [(cnt, clk (t + 1) - clk t, b / (clk (t + 1) - clk t))]"]
  obtain w' where w': "pool_tests clk body tasks b rest
        (tbl @ [(cnt, clk (t + 1) - clk t, b / (clk (t + 1) - clk t))]) w3
      = (Inr ((tbl @ [(cnt, clk (t + 1) - clk t, b / (clk (t + 1) - clk t))])
              @ map (\<lambda>i. (rest ! i, clk (t + 2 + 2 * i + 1) - clk (t + 2 + 2 * i),
                          b / (clk (t + 2 + 2 * i + 1) - clk (t + 2 + 2 * i))))
                  [0 ..< length rest]), w')"
    "calls w' = calls w3 @ concat (replicate (length rest) tasks)"
    by blast
  have m: "map (\<lambda>i. ((cnt # rest) ! i, clk (t + 2 * i + 1) - clk (t + 2 * i),
                      b / (clk (t + 2 * i + 1) - clk (t + 2 * i))))
             [0 ..< length (cnt # rest)]
         = (cnt, clk (t + 1) - clk t, b / (clk (t + 1) - clk t))
           # map (\<lambda>i. (rest ! i, clk (t + 2 + 2 * i + 1) - clk (t + 2 + 2 * i),
                          b / (clk (t + 2 + 2 * i + 1) - clk (t + 2 + 2 * i))))
                  [0 ..< length rest]"
    by (simp add: map_upt_Suc add.assoc del: upt_Suc)
  show ?case unfolding m using w3 w' by simp
qed

text \<open>A loop that returns its table has run every pool over the whole batch, with a
  positive worker count and a measured time other than zero, and the table is the one
  above.\<close>

lemma pool_tests_returned:
  assumes "pool_tests clk body tasks b counts tbl w = (Inr table, w')" and "ticks w = t"
  shows "(\<forall>i < length counts. 1 \<le> counts ! i \<and> clk (t + 2 * i + 1) \<noteq> clk (t + 2 * i))
       \<and> table = tbl @ map (\<lambda>i. (counts ! i, clk (t + 2 * i + 1) - clk (t + 2 * i),
                                   b / (clk (t + 2 * i + 1) - clk (t + 2 * i))))
                          [0 ..< length counts]
       \<and> calls w' = calls w @ concat (replicate (length counts) tasks)"
  using assms
proof (induction counts arbitrary: tbl w t)
  case Nil
  then show ?case by simp
next
  case (Cons cnt rest)
  obtain r w2 where pm: "pool_map cnt (parallel_process_image body) tasks
      (w\<lparr>ticks := Suc (ticks w)\<rparr>) = (r, w2)" by force
  from pm Cons.prems(1) obtain rs where r: "r = Inr rs"
    using pool_tests_raised [of cnt body tasks w _ w2 clk b rest tbl] by (cases r) auto
  from pool_tests_round [OF pm [unfolded r], of clk b rest tbl] Cons.prems
  obtain w3 where w3: "calls w3 = calls w @ tasks" "ticks w3 = t + 2"
    and c0: "1 \<le> cnt" and z0: "clk (t + 1) \<noteq> clk t"
    and rr: "pool_tests clk body tasks b rest
              (tbl @ [(cnt, clk (t + 1) - clk t, b / (clk (t + 1) - clk t))]) w3 = (Inr table, w')"
    by (auto split: if_splits)
  from Cons.IH [OF rr w3(2)] have
    rest: "\<forall>i < length rest.
      1 \<le> rest ! i \<and> clk (t + 2 + 2 * i + 1) \<noteq> clk (t + 2 + 2 * i)"
    and tb: "table = (tbl @ [(cnt, clk (t + 1) - clk t, b / (clk (t + 1) - clk t))])
           @ map (\<lambda>i. (rest ! i, clk (t + 2 + 2 * i + 1) - clk (t + 2 + 2 * i),
                          b / (clk (t + 2 + 2 * i + 1) - clk (t + 2 + 2 * i))))
                  [0 ..< length rest]"
    and cl: "calls w' = calls w3 @ concat (replicate (length rest) tasks)"
    by blast+
  have m: "map (\<lambda>i. ((cnt # rest) ! i, clk (t + 2 * i + 1) - clk (t + 2 * i),
                      b / (clk (t + 2 * i + 1) - clk (t + 2 * i))))
             [0 ..< length (cnt # rest)]
         = (cnt, clk (t + 1) - clk t, b / (clk (t + 1) - clk t))
           # map (\<lambda>i. (rest ! i, clk (t + 2 + 2 * i + 1) - clk (t + 2 + 2 * i),
                          b / (clk (t + 2 + 2 * i + 1) - clk (t + 2 + 2 * i))))
                  [0 ..< length rest]"
    by (simp add: map_upt_Suc add.assoc del: upt_Suc)
  have a: "\<forall>i < length (cnt # rest).
      1 \<le> (cnt # rest) ! i \<and> clk (t + 2 * i + 1) \<noteq> clk (t + 2 * i)"
  proof (intro allI impI)
    fix i assume "i < length (cnt # rest)"
    then show "1 \<le> (cnt # rest) ! i \<and> clk (t + 2 * i + 1) \<noteq> clk (t + 2 * i)"
      using c0 z0 rest by (cases i) (simp_all add: add.assoc)
  qed
  from a tb cl w3(1) show ?case unfolding m by simp
qed

lemma pool_tests_zero_elapsed:
  assumes "\<forall>i < length counts. 1 \<le> counts ! i"
    and "\<exists>i < length counts. clk (t + 2 * i + 1) = clk (t + 2 * i)"
    and "ticks w = t" and "prints_all body \<or> tasks = []"
  shows "fst (pool_tests clk body tasks b counts tbl w) = Inl ZeroDivisionError"
  using assms(1,2,3)
proof (induction counts arbitrary: tbl w t)
  case Nil
  then show ?case by simp
next
  case (Cons cnt rest)
  from Cons.prems(1) have c0: "1 \<le> cnt" by fastforce
  from Cons.prems(1) have pos: "\<forall>i < length rest. 1 \<le> rest ! i" by fastforce
  from pool_tests_step [OF c0 assms(4), of w clk b rest tbl] Cons.prems(3)
  obtain w3 where w3: "ticks w3 = t + 2"
    and st: "pool_tests clk body tasks b (cnt # rest) tbl w =
      (if clk (t + 1) = clk t then (Inl ZeroDivisionError, w3)
       else pool_tests clk body tasks b rest
              (tbl @ [(cnt, clk (t + 1) - clk t, b / (clk (t + 1) - clk t))]) w3)"
    by auto
  show ?case
  proof (cases "clk (t + 1) = clk t")
    case True
    with st show ?thesis by simp
  next
    case False
    from Cons.prems(2) obtain i where i: "i < length (cnt # rest)"
      "clk (t + 2 * i + 1) = clk (t + 2 * i)" by blast
    with False obtain j where j: "i = Suc j" by (cases i) auto
    with i have "\<exists>j < length rest. clk (t + 2 + 2 * j + 1) = clk (t + 2 + 2 * j)"
      by (auto simp: add.assoc)
    from Cons.IH [OF pos this w3] st False show ?thesis by simp
  qed
qed


lemma pool_tests_no_tasks:
  "calls (snd (pool_tests clk body [] b counts tbl w)) = calls w"
proof (induction counts arbitrary: tbl w)
  case Nil
  show ?case by simp
next
  case (Cons cnt rest)
  show ?case
  proof (cases "1 \<le> cnt")
    case True
    have "prints_all body \<or> ([] :: (path \<times> path) list) = []" by simp
    from pool_tests_step [OF True this, of w clk b rest tbl]
    obtain w3 where "calls w3 = calls w"
      "pool_tests clk body [] b (cnt # rest) tbl w =
        (if clk (ticks w + 1) = clk (ticks w) then (Inl ZeroDivisionError, w3)
         else pool_tests clk body [] b rest
              (tbl @ [(cnt, clk (ticks w + 1) - clk (ticks w),
                       b / (clk (ticks w + 1) - clk (ticks w)))]) w3)"
      by auto
    then show ?thesis using Cons.IH by simp
  next
    case False
    then have "cnt < 1" by simp
    from pool_tests_refused [OF this] show ?thesis by simp
  qed
qed



lemma parallel_run_round:
  assumes "run_each (parallel_process_image body) tasks (fresh_world\<lparr>ticks := Suc 0\<rparr>)
             = (Inr rs, w2)"
  shows "\<exists>w3. calls w3 = tasks \<and> ticks w3 = 2 \<and>
     parallel_run clk body tasks counts
       = pool_tests clk body tasks (clk 1 - clk 0) counts [(1, clk 1 - clk 0, 1)] w3"
proof -
  from run_each_returned(2,3) [OF assms] have c: "calls w2 = tasks" and t: "ticks w2 = Suc 0"
    by (simp_all add: fresh_world_def)
  have "parallel_run clk body tasks counts
      = pool_tests clk body tasks (clk 1 - clk 0) counts [(1, clk 1 - clk 0, 1)]
          (w2\<lparr>ticks := Suc (ticks w2)\<rparr>)"
    using assms t by (simp add: parallel_run_def perf_counter_def fresh_world_def Let_def)
  moreover have "calls (w2\<lparr>ticks := Suc (ticks w2)\<rparr>) = tasks"
    "ticks (w2\<lparr>ticks := Suc (ticks w2)\<rparr>) = 2"
    using c t by simp_all
  ultimately show ?thesis by blast
qed

lemma parallel_run_raised:
  assumes "run_each (parallel_process_image body) tasks (fresh_world\<lparr>ticks := Suc 0\<rparr>)
             = (Inl e, w2)"
  shows "parallel_run clk body tasks counts = (Inl e, w2)"
  using assms by (simp add: parallel_run_def perf_counter_def fresh_world_def)

lemma parallel_run_unfold:
  assumes "prints_all body \<or> tasks = []"
  shows "\<exists>w3. calls w3 = tasks \<and> ticks w3 = 2 \<and>
     parallel_run clk body tasks counts
       = pool_tests clk body tasks (clk 1 - clk 0) counts [(1, clk 1 - clk 0, 1)] w3"
proof -
  from run_each_prints_all [OF assms, of "fresh_world\<lparr>ticks := Suc 0\<rparr>"] obtain rs w2 where
    "run_each (parallel_process_image body) tasks (fresh_world\<lparr>ticks := Suc 0\<rparr>) = (Inr rs, w2)"
    by blast
  from parallel_run_round [OF this] show ?thesis .
qed

lemma reading_index:
  "2 + 2 * i + 1 = 2 * i + (3::nat)" "2 * i + 2 + 1 = 2 * i + (3::nat)"
  "2 + 2 * i = 2 * i + (2::nat)"
  by simp_all

lemma parallel_run_completes:
  assumes "\<forall>i < length counts. 1 \<le> counts ! i \<and> clk (2 * i + 3) \<noteq> clk (2 * i + 2)"
    and "prints_all body \<or> tasks = []"
  shows "\<exists>w'. parallel_run clk body tasks counts
            = (Inr ((1, clk 1 - clk 0, 1)
                    # map (\<lambda>i. (counts ! i, clk (2 * i + 3) - clk (2 * i + 2),
                                 (clk 1 - clk 0) / (clk (2 * i + 3) - clk (2 * i + 2))))
                        [0 ..< length counts]), w')
          \<and> calls w' = concat (replicate (Suc (length counts)) tasks)"
proof -
  from parallel_run_unfold [OF assms(2), of clk counts] obtain w3 where
    w3: "calls w3 = tasks" "ticks w3 = 2"
      "parallel_run clk body tasks counts
         = pool_tests clk body tasks (clk 1 - clk 0) counts [(1, clk 1 - clk 0, 1)] w3"
    by blast
  have a: "\<forall>i < length counts.
      1 \<le> counts ! i \<and> clk (2 + 2 * i + 1) \<noteq> clk (2 + 2 * i)"
    unfolding reading_index by (rule assms(1))
  from pool_tests_completes [OF a w3(2) assms(2), of "clk 1 - clk 0" "[(1, clk 1 - clk 0, 1)]"]
  show ?thesis unfolding w3(3) reading_index using w3(1) by simp
qed

text \<open>A run that returns its table.\<close>

lemma parallel_run_returned:
  assumes "parallel_run clk body tasks counts = (Inr table, w')"
  shows "(\<forall>i < length counts. 1 \<le> counts ! i \<and> clk (2 * i + 3) \<noteq> clk (2 * i + 2))
       \<and> table = (1, clk 1 - clk 0, 1)
                  # map (\<lambda>i. (counts ! i, clk (2 * i + 3) - clk (2 * i + 2),
                               (clk 1 - clk 0) / (clk (2 * i + 3) - clk (2 * i + 2))))
                      [0 ..< length counts]
       \<and> calls w' = concat (replicate (Suc (length counts)) tasks)"
proof -
  obtain r w2 where b: "run_each (parallel_process_image body) tasks
      (fresh_world\<lparr>ticks := Suc 0\<rparr>) = (r, w2)" by force
  from b assms obtain rs where r: "r = Inr rs"
    using parallel_run_raised [of body tasks _ w2 clk counts] by (cases r) auto
  from parallel_run_round [OF b [unfolded r], of clk counts] obtain w3 where
    w3: "calls w3 = tasks" "ticks w3 = 2"
      "parallel_run clk body tasks counts
         = pool_tests clk body tasks (clk 1 - clk 0) counts [(1, clk 1 - clk 0, 1)] w3"
    by blast
  from assms w3(3) have "pool_tests clk body tasks (clk 1 - clk 0) counts
      [(1, clk 1 - clk 0, 1)] w3 = (Inr table, w')" by simp
  from pool_tests_returned [OF this w3(2)] w3(1) show ?thesis unfolding reading_index by simp
qed

lemma parallel_run_no_tasks: "calls (snd (parallel_run clk body [] counts)) = []"
proof -
  have "prints_all body \<or> ([] :: (path \<times> path) list) = []" by simp
  from parallel_run_unfold [OF this, of clk counts] obtain w3 where
    "calls w3 = []"
    "parallel_run clk body [] counts
       = pool_tests clk body [] (clk 1 - clk 0) counts [(1, clk 1 - clk 0, 1)] w3"
    by blast
  then show ?thesis by (simp add: pool_tests_no_tasks)
qed

lemma parallel_run_zero_elapsed:
  assumes "\<forall>i < length counts. 1 \<le> counts ! i"
    and "\<exists>i < length counts. clk (2 * i + 3) = clk (2 * i + 2)"
    and "prints_all body \<or> tasks = []"
  shows "fst (parallel_run clk body tasks counts) = Inl ZeroDivisionError"
proof -
  from parallel_run_unfold [OF assms(3), of clk counts] obtain w3 where
    w3: "ticks w3 = 2"
      "parallel_run clk body tasks counts
         = pool_tests clk body tasks (clk 1 - clk 0) counts [(1, clk 1 - clk 0, 1)] w3"
    by blast
  have z: "\<exists>i < length counts. clk (2 + 2 * i + 1) = clk (2 + 2 * i)"
    unfolding reading_index by (rule assms(2))
  from pool_tests_zero_elapsed [OF assms(1) z w3(1) assms(3)] w3(2) show ?thesis by simp
qed




lemma parallel_main_rows:
  assumes "parallel_main sd clk body found = (Inr table, w')"
  shows "map fst table = [1, 2, 4, 8]"
proof -
  from assms have r: "parallel_run clk body (parallel_tasks sd found) worker_counts
      = (Inr table, w')" by (simp add: parallel_main_def)
  from parallel_run_returned [OF r] show ?thesis by (simp add: worker_counts_def upt_rec)
qed

lemma sequential_main_result:
  assumes "prints_all body \<or> found = []"
  shows "fst (sequential_main sd clk body found) = Inr (clk 1 - clk 0)"
    and "calls (snd (sequential_main sd clk body found)) = sequential_image_files sd found"
proof -
  let ?w1 = "fresh_world\<lparr>ticks := Suc 0\<rparr>"
  from assms have "prints_all body \<or> sequential_image_files sd found = []"
    by (auto simp: sequential_image_files_def)
  from run_each_prints_all [OF this, of ?w1] obtain rs w2 where
    r: "run_each (parallel_process_image body) (sequential_image_files sd found) ?w1
          = (Inr rs, w2)"
    by blast
  from run_each_returned(2,3) [OF r] have c: "calls w2 = sequential_image_files sd found"
    and t: "ticks w2 = Suc 0" by (simp_all add: fresh_world_def)
  have e: "run_each (sequential_process_image body) (sequential_image_files sd found) ?w1
      = (Inr (map (\<lambda>r. PyNone) rs), w2)"
    using r by (simp add: run_each_sequential)
  have m: "sequential_main sd clk body found
      = (Inr (clk 1 - clk 0), w2\<lparr>ticks := Suc (ticks w2)\<rparr>)"
    using e t by (simp add: sequential_main_def perf_counter_def fresh_world_def)
  show "fst (sequential_main sd clk body found) = Inr (clk 1 - clk 0)"
    using m by simp
  show "calls (snd (sequential_main sd clk body found)) = sequential_image_files sd found"
    using m c by simp
qed

lemma distributed_run_report:
  assumes "distributed_run k sd clk nclk nbody finished found = (Inr rep, runs)"
  shows "total_distributed_time rep = clk 2 - clk 1
       \<and> efficiency rep = SEQUENTIAL_TIME / (clk 2 - clk 1)
       \<and> node_times rep = sort (sort_key (\<lambda>r. finished (fst r)) (queued runs))"
  using assms
  by (auto simp: distributed_run_def perf_counter_def fresh_world_def Let_def numeral_2_eq_2
      split: sum.splits prod.splits option.splits if_splits)

lemma clock_of_simps:
  "clock_of [] n = 0"
  "clock_of (x # xs) 0 = x"
  "clock_of (x # xs) (Suc n) = clock_of xs n"
  "clock_of (x # xs) (numeral k) = clock_of xs (pred_numeral k)"
  "clock_of (x # xs) 1 = clock_of xs 0"
  by (simp_all add: clock_of_def numeral_eq_Suc)

lemma demo_body_prints: "prints_all demo_body"
  by (simp add: prints_all_def demo_body_def)

lemma demo_parallel_run:
  "fst (parallel_run (clock_of [0, 4, 4, 6, 6, 7, 7, 8]) demo_body demo_tasks worker_counts)
     = Inr [(1, 4, 1), (2, 2, 2), (4, 1, 4), (8, 1, 4)]"
proof -
  let ?clk = "clock_of [0, 4, 4, 6, 6, 7, 7, 8]"
  have "\<forall>i < length worker_counts.
      1 \<le> worker_counts ! i \<and> ?clk (2 * i + 3) \<noteq> ?clk (2 * i + 2)"
    by (simp add: worker_counts_def All_less_Suc2 numeral_3_eq_3 clock_of_simps)
  from parallel_run_completes [OF this, of demo_body demo_tasks] demo_body_prints
  show ?thesis
    by (auto simp: worker_counts_def upt_rec clock_of_simps)
qed

lemma run_each_map: "run_each (\<lambda>x. f (h x)) xs w = run_each f (map h xs) w"
  by (induction xs arbitrary: w) (simp_all split: prod.splits sum.splits)

text \<open>Whatever ends a pass, it has invoked \<open>process_image\<close> on the units of a prefix of the
  batch, in order.\<close>

lemma run_each_calls_prefix:
  "\<exists>m. calls (snd (run_each (parallel_process_image body) tasks w)) = calls w @ take m tasks"
proof (induction tasks arbitrary: w)
  case Nil
  show ?case by simp
next
  case (Cons t tasks)
  obtain r w1 where s: "parallel_process_image body t w = (r, w1)" by force
  from parallel_process_image_step [OF s] have c1: "calls w1 = calls w @ [t]" by simp
  show ?case
  proof (cases r)
    case (Inl e)
    with s have "run_each (parallel_process_image body) (t # tasks) w = (Inl e, w1)" by simp
    with c1 have "calls (snd (run_each (parallel_process_image body) (t # tasks) w))
        = calls w @ take 1 (t # tasks)" by simp
    then show ?thesis by blast
  next
    case (Inr v)
    from Cons.IH [of w1] obtain m where
      m: "calls (snd (run_each (parallel_process_image body) tasks w1)) = calls w1 @ take m tasks"
      by blast
    from s Inr have "snd (run_each (parallel_process_image body) (t # tasks) w)
        = snd (run_each (parallel_process_image body) tasks w1)"
      by (simp split: prod.splits sum.splits)
    with m c1 have "calls (snd (run_each (parallel_process_image body) (t # tasks) w))
        = calls w @ take (Suc m) (t # tasks)" by simp
    then show ?thesis by blast
  qed
qed

lemma node_worker_run:
  "\<exists>r w2. run_each (parallel_process_image body)
             (map (\<lambda>input_path. (input_path, node_output_path sd output_dir input_path)) image_list)
             (fresh_world\<lparr>ticks := Suc 0\<rparr>) = (r, w2)
     \<and> node_worker sd clk body node_id image_list output_dir
         = (case r of
              Inl e \<Rightarrow> ((node_id, None), w2)
            | Inr rs \<Rightarrow> ((node_id, Some (node_id, length image_list, clk 1 - clk 0)),
                         w2\<lparr>ticks := Suc (ticks w2)\<rparr>))"
proof -
  let ?h = "\<lambda>input_path. (input_path, node_output_path sd output_dir input_path)"
  let ?w1 = "fresh_world\<lparr>ticks := Suc 0\<rparr>"
  obtain r w2 where r: "run_each (parallel_process_image body) (map ?h image_list) ?w1 = (r, w2)"
    by force
  have e: "run_each (\<lambda>input_path. distributed_process_image body (?h input_path)) image_list ?w1
      = (map_sum id (map (\<lambda>r. PyNone)) r, w2)"
  proof -
    have "run_each (\<lambda>input_path. distributed_process_image body (?h input_path)) image_list ?w1
        = run_each (distributed_process_image body) (map ?h image_list) ?w1"
      by (rule run_each_map)
    also have "\<dots> = run_each (sequential_process_image body) (map ?h image_list) ?w1"
      by (simp only: distributed_as_sequential)
    also have "\<dots> = (map_sum id (map (\<lambda>r. PyNone)) r, w2)"
      using r by (simp add: run_each_sequential)
    finally show ?thesis .
  qed
  have "node_worker sd clk body node_id image_list output_dir
         = (case r of
              Inl e \<Rightarrow> ((node_id, None), w2)
            | Inr rs \<Rightarrow> ((node_id, Some (node_id, length image_list, clk 1 - clk 0)),
                         w2\<lparr>ticks := Suc (ticks w2)\<rparr>))"
  proof (cases r)
    case (Inl err)
    with e show ?thesis
      by (simp add: node_worker_def perf_counter_def fresh_world_def)
  next
    case (Inr rs)
    with r have "ticks w2 = Suc 0" using run_each_returned(3) [of body "map ?h image_list" ?w1 rs w2]
      by (simp add: fresh_world_def)
    with e Inr show ?thesis
      by (simp add: node_worker_def perf_counter_def fresh_world_def Let_def)
  qed
  with r show ?thesis by blast
qed

lemma node_worker_id:
  "fst (fst (node_worker sd clk body node_id image_list output_dir)) = node_id"
  "snd (fst (node_worker sd clk body node_id image_list output_dir)) = None
   \<or> snd (fst (node_worker sd clk body node_id image_list output_dir))
       = Some (node_id, length image_list, clk 1 - clk 0)"
proof -
  from node_worker_run [of body sd output_dir image_list clk node_id] obtain r w2 where
    "run_each (parallel_process_image body)
       (map (\<lambda>input_path. (input_path, node_output_path sd output_dir input_path)) image_list)
       (fresh_world\<lparr>ticks := Suc 0\<rparr>) = (r, w2)"
    and nw: "node_worker sd clk body node_id image_list output_dir
         = (case r of
              Inl e \<Rightarrow> ((node_id, None), w2)
            | Inr rs \<Rightarrow> ((node_id, Some (node_id, length image_list, clk 1 - clk 0)),
                         w2\<lparr>ticks := Suc (ticks w2)\<rparr>))"
    by blast
  from nw show "fst (fst (node_worker sd clk body node_id image_list output_dir)) = node_id"
    by (cases r) simp_all
  from nw show "snd (fst (node_worker sd clk body node_id image_list output_dir)) = None
   \<or> snd (fst (node_worker sd clk body node_id image_list output_dir))
       = Some (node_id, length image_list, clk 1 - clk 0)"
    by (cases r) simp_all
qed

lemma node_worker_calls_prefix:
  "\<exists>m. calls (snd (node_worker sd clk body node_id image_list output_dir))
     = take m (map (\<lambda>input_path. (input_path, node_output_path sd output_dir input_path))
                 image_list)"
proof -
  let ?h = "\<lambda>input_path. (input_path, node_output_path sd output_dir input_path)"
  from node_worker_run [of body sd output_dir image_list clk node_id] obtain r w2 where
    r: "run_each (parallel_process_image body) (map ?h image_list)
          (fresh_world\<lparr>ticks := Suc 0\<rparr>) = (r, w2)"
    and nw: "node_worker sd clk body node_id image_list output_dir
         = (case r of
              Inl e \<Rightarrow> ((node_id, None), w2)
            | Inr rs \<Rightarrow> ((node_id, Some (node_id, length image_list, clk 1 - clk 0)),
                         w2\<lparr>ticks := Suc (ticks w2)\<rparr>))"
    by blast
  from nw have n: "calls (snd (node_worker sd clk body node_id image_list output_dir)) = calls w2"
    by (cases r) simp_all
  from run_each_calls_prefix [of body "map ?h image_list" "fresh_world\<lparr>ticks := Suc 0\<rparr>"] r
  obtain m where "calls w2 = take m (map ?h image_list)" by (auto simp: fresh_world_def)
  with n show ?thesis by auto
qed

lemma node_worker_result:
  assumes "prints_all body \<or> image_list = []"
  shows "fst (node_worker sd clk body node_id image_list output_dir)
     = (node_id, Some (node_id, length image_list, clk 1 - clk 0))"
  "calls (snd (node_worker sd clk body node_id image_list output_dir))
     = map (\<lambda>input_path. (input_path, node_output_path sd output_dir input_path)) image_list"
proof -
  let ?h = "\<lambda>input_path. (input_path, node_output_path sd output_dir input_path)"
  from assms have "prints_all body \<or> map ?h image_list = []" by simp
  from run_each_prints_all [OF this, of "fresh_world\<lparr>ticks := Suc 0\<rparr>"] obtain rs w2 where
    r: "run_each (parallel_process_image body) (map ?h image_list)
          (fresh_world\<lparr>ticks := Suc 0\<rparr>) = (Inr rs, w2)" by blast
  from run_each_returned(2) [OF r] have c: "calls w2 = map ?h image_list"
    by (simp add: fresh_world_def)
  from node_worker_run [of body sd output_dir image_list clk node_id] r
  have n: "node_worker sd clk body node_id image_list output_dir
      = ((node_id, Some (node_id, length image_list, clk 1 - clk 0)),
         w2\<lparr>ticks := Suc (ticks w2)\<rparr>)" by auto
  from n show "fst (node_worker sd clk body node_id image_list output_dir)
     = (node_id, Some (node_id, length image_list, clk 1 - clk 0))" by simp
  from n c show "calls (snd (node_worker sd clk body node_id image_list output_dir))
     = map ?h image_list" by simp
qed

lemma py_range_two: "py_range 2 = [0, Suc 0]"
  by (simp add: py_range_def upt_rec numeral_2_eq_2)


lemma distributed_main_unfold:
  "distributed_main sd clk nclk nbody finished found =
     (if clk 2 = clk 1 then Inl ZeroDivisionError
      else Inr \<lparr>node_times =
                 sort (sort_key (\<lambda>r. finished (fst r))
                   (queued
                     [node_worker sd (nclk 1) (nbody 1) 1
                        (take ((length found + 1) div 2) found) (OUTPUT_DIR_NODE1 sd),
                      node_worker sd (nclk 2) (nbody 2) 2
                        (drop ((length found + 1) div 2) found) (OUTPUT_DIR_NODE2 sd)])),
               total_distributed_time = clk 2 - clk 1,
               efficiency = SEQUENTIAL_TIME / (clk 2 - clk 1)\<rparr>,
      [node_worker sd (nclk 1) (nbody 1) 1
         (take ((length found + 1) div 2) found) (OUTPUT_DIR_NODE1 sd),
       node_worker sd (nclk 2) (nbody 2) 2
         (drop ((length found + 1) div 2) found) (OUTPUT_DIR_NODE2 sd)])"
  by (simp add: distributed_main_def NUM_NODES_def distributed_run_def node_tasks_two_nodes
      py_range_two node_outputs_def perf_counter_def fresh_world_def Let_def numeral_2_eq_2)

text \<open>Sorting what the queue hands over gives the queued results in ascending order,
  whatever the order of arrival.\<close>

lemma sort_arrivals:
  fixes rs :: "node_result list"
  assumes "sorted rs"
  shows "sort (sort_key f rs) = rs"
proof (rule properties_for_sort)
  show "mset rs = mset (sort_key f rs)" by (simp only: mset_sort)
  show "sorted rs" by (rule assms)
qed

lemma queued_two_sorted:
  assumes "snd (fst r1) = None \<or> (\<exists>n t. snd (fst r1) = Some (1, n, t))"
    and "snd (fst r2) = None \<or> (\<exists>n t. snd (fst r2) = Some (2, n, t))"
  shows "sorted (queued [r1, r2])" and "sorted (map fst (queued [r1, r2]))"
  using assms by (auto simp: queued_def)

lemma distributed_main_rows:
  assumes "distributed_main sd clk nclk nbody finished found = (Inr rep, runs)"
  shows "node_times rep = queued runs"
    and "sorted (map fst (node_times rep))"
    and "map (\<lambda>run. fst (fst run)) runs = [1, 2]"
    and "(\<forall>i. prints_all (nbody i)) \<or> found = [] \<Longrightarrow> map fst (node_times rep) = [1, 2]"
proof -
  let ?r1 = "node_worker sd (nclk 1) (nbody 1) 1
         (take ((length found + 1) div 2) found) (OUTPUT_DIR_NODE1 sd)"
  let ?r2 = "node_worker sd (nclk 2) (nbody 2) 2
         (drop ((length found + 1) div 2) found) (OUTPUT_DIR_NODE2 sd)"
  have q1: "snd (fst ?r1) = None \<or> (\<exists>n t. snd (fst ?r1) = Some (1, n, t))"
    using node_worker_id(2) [of sd "nclk 1" "nbody 1" 1 _ "OUTPUT_DIR_NODE1 sd"] by blast
  have q2: "snd (fst ?r2) = None \<or> (\<exists>n t. snd (fst ?r2) = Some (2, n, t))"
    using node_worker_id(2) [of sd "nclk 2" "nbody 2" 2 _ "OUTPUT_DIR_NODE2 sd"] by blast
  from assms have runs: "runs = [?r1, ?r2]"
    and nt: "node_times rep = sort (sort_key (\<lambda>r. finished (fst r)) (queued [?r1, ?r2]))"
    unfolding distributed_main_unfold by (auto split: if_splits)
  from nt have n2: "node_times rep = queued [?r1, ?r2]"
    by (simp only: sort_arrivals [OF queued_two_sorted(1) [OF q1 q2]])
  with runs show "node_times rep = queued runs" by simp
  from n2 queued_two_sorted(2) [OF q1 q2] show "sorted (map fst (node_times rep))" by simp
  from runs show "map (\<lambda>run. fst (fst run)) runs = [1, 2]" by (simp add: node_worker_id)
  assume "(\<forall>i. prints_all (nbody i)) \<or> found = []"
  then have "prints_all (nbody 1) \<or> take ((length found + 1) div 2) found = []"
    and "prints_all (nbody 2) \<or> drop ((length found + 1) div 2) found = []" by auto
  with n2 show "map fst (node_times rep) = [1, 2]"
    by (simp add: queued_def node_worker_result)
qed

lemma demo_distributed_main:
  "fst (distributed_main [''d''] (clock_of [0, 1, 2]) demo_node_clk demo_node_body
          demo_finished demo_found)
     = Inr \<lparr>node_times = [(1, 2, 1), (2, 1, 2)], total_distributed_time = 1,
            efficiency = 1824 / 100\<rparr>"
proof -
  have f: "demo_found = [[''d'', ''images_dataset'', ''a.png''],
      [''d'', ''images_dataset'', ''b.png''], [''d'', ''images_dataset'', ''c.png'']]"
    by (simp add: demo_found_def demo_tasks_def)
  have s: "sort (sort_key (\<lambda>r. demo_finished (fst r)) [(1, 2, 1), (2, 1, 2) :: node_result])
      = [(1, 2, 1), (2, 1, 2)]"
    by (rule sort_arrivals) simp
  show ?thesis
    unfolding distributed_main_unfold
    by (simp add: f node_worker_result demo_body_prints queued_def demo_node_clk_def
        demo_node_body_def clock_of_simps s SEQUENTIAL_TIME_def)
qed

lemma demo_sequential_main:
  "fst (sequential_main [''d''] (clock_of [0, 2]) demo_body demo_found) = Inr 2"
  by (simp add: sequential_main_result demo_body_prints clock_of_simps)



section \<open>Properties of the output paths\<close>

lemma commonprefix_append: "commonprefix s (s @ r) = s"
  by (induction s) simp_all

lemma relpath_below: "rel \<noteq> [] \<Longrightarrow> relpath (start @ rel) start = rel"
  by (simp add: relpath_def commonprefix_append Let_def)

text \<open>The walk yields files below the source directory.\<close>

lemma output_path_below:
  assumes "rel \<noteq> []" and "p = SOURCE_DIR sd @ rel"
  shows "join dir (relpath p (SOURCE_DIR sd)) = dir @ rel"
  using assms by (simp add: join_def relpath_below)

lemma outputs_inj:
  assumes "\<forall>p \<in> set found. \<exists>rel. rel \<noteq> [] \<and> p = SOURCE_DIR sd @ rel"
  shows "inj_on (\<lambda>p. join dir (relpath p (SOURCE_DIR sd))) (set found)"
proof (rule inj_onI)
  fix p q
  assume p: "p \<in> set found" and q: "q \<in> set found"
    and e: "join dir (relpath p (SOURCE_DIR sd)) = join dir (relpath q (SOURCE_DIR sd))"
  from assms p obtain rp where rp: "rp \<noteq> []" "p = SOURCE_DIR sd @ rp" by blast
  from assms q obtain rq where rq: "rq \<noteq> []" "q = SOURCE_DIR sd @ rq" by blast
  from e output_path_below [OF rp, of dir] output_path_below [OF rq, of dir]
  have "rp = rq" by simp
  with rp rq show "p = q" by simp
qed

lemma outputs_distinct:
  assumes "distinct found"
    and "\<forall>p \<in> set found. \<exists>rel. rel \<noteq> [] \<and> p = SOURCE_DIR sd @ rel"
  shows "distinct (map (\<lambda>p. join dir (relpath p (SOURCE_DIR sd))) found)"
  using assms outputs_inj [OF assms(2), of dir] by (simp add: distinct_map)

lemma node_dirs_differ: "OUTPUT_DIR_NODE1 sd @ r1 \<noteq> OUTPUT_DIR_NODE2 sd @ r2"
  by (simp add: OUTPUT_DIR_NODE1_def OUTPUT_DIR_NODE2_def join_def)

lemma node_outputs_of_calls:
  "prints_all body \<or> image_list = [] \<Longrightarrow>
     map snd (calls (snd (node_worker sd clk body node_id image_list output_dir)))
       = map (\<lambda>p. join output_dir (relpath p (SOURCE_DIR sd))) image_list"
  by (simp add: node_worker_result node_output_path_def comp_def)

lemma node_outputs_prefix:
  "\<exists>m. map snd (calls (snd (node_worker sd clk body node_id image_list output_dir)))
     = take m (map (\<lambda>p. join output_dir (relpath p (SOURCE_DIR sd))) image_list)"
proof -
  from node_worker_calls_prefix [of sd clk body node_id image_list output_dir] obtain m where
    "calls (snd (node_worker sd clk body node_id image_list output_dir))
       = take m (map (\<lambda>input_path. (input_path, node_output_path sd output_dir input_path))
                   image_list)" by blast
  then have "map snd (calls (snd (node_worker sd clk body node_id image_list output_dir)))
     = take m (map (\<lambda>p. join output_dir (relpath p (SOURCE_DIR sd))) image_list)"
    by (simp add: take_map node_output_path_def comp_def)
  then show ?thesis by blast
qed

lemma demo_found_paths:
  "demo_found = [SOURCE_DIR [''d''] @ [''a.png''], SOURCE_DIR [''d''] @ [''b.png''],
                 SOURCE_DIR [''d''] @ [''c.png'']]"
  by (simp add: demo_found_def demo_tasks_def SOURCE_DIR_def join_def)


section \<open>The baseline, the report and the configuration\<close>

text \<open>
  Claim C1, as amended. In \<open>parallel_process.py\<close> a run that returns its table has the
  baseline row \<open>(1, t1 - t0, 1.0)\<close> first, where \<open>t0\<close> and \<open>t1\<close> are the clock readings
  taken around the one-worker pass over the batch, and the row of every worker count holds
  the measured time of its pool run and the speedup \<open>(t1 - t0) / time\<close>; the baseline
  pass and every pool run have processed the same batch. In \<open>distributed_sim.py\<close> the
  efficiency is the constant \<open>SEQUENTIAL_TIME = 18.24\<close> divided by the measured time of
  the distributed run: no sequential pass over the batch is timed there.
\<close>

theorem speedup_baseline:
  "(parallel_run clk body tasks counts = (Inr table, w') \<longrightarrow>
      table = (1, clk 1 - clk 0, 1)
              # map (\<lambda>i. (counts ! i, clk (2 * i + 3) - clk (2 * i + 2),
                           (clk 1 - clk 0) / (clk (2 * i + 3) - clk (2 * i + 2))))
                  [0 ..< length counts]
      \<and> calls w' = concat (replicate (Suc (length counts)) tasks))
   \<and> (distributed_run k sd dclk nclk nbody finished found = (Inr rep, runs) \<longrightarrow>
        total_distributed_time rep = dclk 2 - dclk 1
        \<and> efficiency rep = SEQUENTIAL_TIME / (dclk 2 - dclk 1)
        \<and> SEQUENTIAL_TIME = 1824 / 100)"
proof (intro conjI impI)
  assume r: "parallel_run clk body tasks counts = (Inr table, w')"
  from parallel_run_returned [OF r]
  show "table = (1, clk 1 - clk 0, 1)
              # map (\<lambda>i. (counts ! i, clk (2 * i + 3) - clk (2 * i + 2),
                           (clk 1 - clk 0) / (clk (2 * i + 3) - clk (2 * i + 2))))
                  [0 ..< length counts]"
    and "calls w' = concat (replicate (Suc (length counts)) tasks)"
    by blast+
next
  assume d: "distributed_run k sd dclk nclk nbody finished found = (Inr rep, runs)"
  from distributed_run_report [OF d]
  show "total_distributed_time rep = dclk 2 - dclk 1"
    and "efficiency rep = SEQUENTIAL_TIME / (dclk 2 - dclk 1)"
    by simp_all
  show "SEQUENTIAL_TIME = 1824 / 100" by (simp add: SEQUENTIAL_TIME_def)
qed

theorem speedup_baseline_witness:
  "fst (parallel_run (clock_of [0, 4, 4, 6, 6, 7, 7, 8]) demo_body demo_tasks worker_counts)
     = Inr [(1, 4, 1), (2, 4 - 2, 4 / 2), (4, 1, 4 / 1), (8, 1, 4 / 1)]
   \<and> efficiency \<lparr>node_times = [(1, 2, 1), (2, 1, 2)], total_distributed_time = 1,
                 efficiency = 1824 / 100\<rparr> = SEQUENTIAL_TIME / (2 - 1)"
proof -
  let ?clk = "clock_of [0, 4, 4, 6, 6, 7, 7, 8]"
  let ?rep = "\<lparr>node_times = [(1, 2, 1), (2, 1, 2)], total_distributed_time = 1,
                 efficiency = 1824 / 100\<rparr>"
  obtain table w' where
    r: "parallel_run ?clk demo_body demo_tasks worker_counts = (table, w')" by force
  with demo_parallel_run obtain rows where t: "table = Inr rows" by simp
  obtain res runs where "distributed_main [''d''] (clock_of [0, 1, 2]) demo_node_clk
      demo_node_body demo_finished demo_found = (res, runs)" by force
  with demo_distributed_main have d: "distributed_run 2 [''d''] (clock_of [0, 1, 2])
      demo_node_clk demo_node_body demo_finished demo_found = (Inr ?rep, runs)"
    by (simp add: distributed_main_def NUM_NODES_def)
  note th = speedup_baseline [of ?clk demo_body demo_tasks worker_counts rows w'
      2 "[''d'']" "clock_of [0, 1, 2]" demo_node_clk demo_node_body demo_finished demo_found
      ?rep runs]
  from th r t have "rows = (1, ?clk 1 - ?clk 0, 1)
      # map (\<lambda>i. (worker_counts ! i, ?clk (2 * i + 3) - ?clk (2 * i + 2),
                   (?clk 1 - ?clk 0) / (?clk (2 * i + 3) - ?clk (2 * i + 2))))
          [0 ..< length worker_counts]"
    by blast
  then have a: "rows = [(1, 4, 1), (2, 4 - 2, 4 / 2), (4, 1, 4 / 1), (8, 1, 4 / 1)]"
    by (simp add: worker_counts_def upt_rec clock_of_simps)
  from th d have "efficiency ?rep
      = SEQUENTIAL_TIME / (clock_of [0, 1, 2] 2 - clock_of [0, 1, 2] 1)"
    by blast
  then have b: "efficiency ?rep = SEQUENTIAL_TIME / (2 - 1)" by (simp add: clock_of_simps)
  from r t a b show ?thesis by simp
qed

text \<open>A batch whose sequential run is measured at 2 seconds and whose distributed run takes
  1 second: the reported efficiency is 18.24, not 2.\<close>

theorem hardcoded_baseline_counterexample:
  "fst (sequential_main [''d''] (clock_of [0, 2]) demo_body demo_found) = Inr 2
   \<and> fst (distributed_main [''d''] (clock_of [0, 1, 2]) demo_node_clk demo_node_body
           demo_finished demo_found)
       = Inr \<lparr>node_times = [(1, 2, 1), (2, 1, 2)], total_distributed_time = 1,
              efficiency = 1824 / 100\<rparr>
   \<and> (1824 / 100 :: real) \<noteq> 2 / 1"
  using demo_sequential_main demo_distributed_main by simp

text \<open>
  Claim C6, as amended. For an empty batch and worker counts that are all positive no
  unit is processed and the script does what it does for any batch: when every pool run
  has a measured time other than zero, the table is the baseline row \<open>(1, t1 - t0, 1.0)\<close>
  followed by the row of each worker count with its measured time and the quotient of the
  two; when the measured time of some pool run is zero, the script ends with
  \<open>ZeroDivisionError\<close>. There is no case of its own for the empty batch.
\<close>

theorem empty_batch_run:
  assumes "\<forall>i < length counts. 1 \<le> counts ! i"
  shows "calls (snd (parallel_run clk body [] counts)) = []
     \<and> ((\<forall>i < length counts. clk (2 * i + 3) \<noteq> clk (2 * i + 2)) \<longrightarrow>
          fst (parallel_run clk body [] counts)
            = Inr ((1, clk 1 - clk 0, 1)
                   # map (\<lambda>i. (counts ! i, clk (2 * i + 3) - clk (2 * i + 2),
                                (clk 1 - clk 0) / (clk (2 * i + 3) - clk (2 * i + 2))))
                       [0 ..< length counts]))
     \<and> ((\<exists>i < length counts. clk (2 * i + 3) = clk (2 * i + 2)) \<longrightarrow>
          fst (parallel_run clk body [] counts) = Inl ZeroDivisionError)
     \<and> parallel_main sd clk body [] = parallel_run clk body [] worker_counts"
proof (intro conjI impI)
  show "calls (snd (parallel_run clk body [] counts)) = []" by (rule parallel_run_no_tasks)
next
  assume nz: "\<forall>i < length counts. clk (2 * i + 3) \<noteq> clk (2 * i + 2)"
  with assms have "\<forall>i < length counts.
      1 \<le> counts ! i \<and> clk (2 * i + 3) \<noteq> clk (2 * i + 2)" by simp
  from parallel_run_completes [OF this, of body "[]"]
  show "fst (parallel_run clk body [] counts)
            = Inr ((1, clk 1 - clk 0, 1)
                   # map (\<lambda>i. (counts ! i, clk (2 * i + 3) - clk (2 * i + 2),
                                (clk 1 - clk 0) / (clk (2 * i + 3) - clk (2 * i + 2))))
                       [0 ..< length counts])"
    by auto
next
  assume "\<exists>i < length counts. clk (2 * i + 3) = clk (2 * i + 2)"
  have "prints_all body \<or> ([] :: (path \<times> path) list) = []" by simp
  from parallel_run_zero_elapsed [OF assms \<open>\<exists>i < length counts. clk (2 * i + 3) = clk (2 * i + 2)\<close> this]
  show "fst (parallel_run clk body [] counts) = Inl ZeroDivisionError" .
next
  show "parallel_main sd clk body [] = parallel_run clk body [] worker_counts"
    by (simp add: parallel_main_def parallel_tasks_def)
qed

theorem empty_batch_run_witness:
  "calls (snd (parallel_run (clock_of [0, 3, 3, 4, 5, 7]) demo_body [] [2, 4])) = []
   \<and> fst (parallel_run (clock_of [0, 3, 3, 4, 5, 7]) demo_body [] [2, 4])
       = Inr [(1, 3, 1), (2, 1, 3), (4, 2, 3 / 2)]
   \<and> fst (parallel_run (clock_of [0, 3, 3, 4, 5, 5]) demo_body [] [2, 4])
       = Inl ZeroDivisionError"
proof -
  let ?a = "clock_of [0, 3, 3, 4, 5, 7]" and ?b = "clock_of [0, 3, 3, 4, 5, 5]"
  have pos: "\<forall>i < length [2, 4 :: int]. 1 \<le> [2, 4 :: int] ! i"
    by (simp add: All_less_Suc2)
  have nz: "\<forall>i < length [2, 4 :: int]. ?a (2 * i + 3) \<noteq> ?a (2 * i + 2)"
    by (simp add: All_less_Suc2 clock_of_simps numeral_3_eq_3)
  have z: "\<exists>i < length [2, 4 :: int]. ?b (2 * i + 3) = ?b (2 * i + 2)"
    by (rule exI [of _ 1]) (simp add: clock_of_simps)
  from empty_batch_run [OF pos, of ?a demo_body] nz
  have c: "calls (snd (parallel_run ?a demo_body [] [2, 4])) = []"
    and r: "fst (parallel_run ?a demo_body [] [2, 4])
       = Inr ((1, ?a 1 - ?a 0, 1)
                   # map (\<lambda>i. ([2, 4] ! i, ?a (2 * i + 3) - ?a (2 * i + 2),
                                (?a 1 - ?a 0) / (?a (2 * i + 3) - ?a (2 * i + 2))))
                       [0 ..< length [2, 4 :: int]])"
    by blast+
  from empty_batch_run [OF pos, of ?b demo_body] z
  have e: "fst (parallel_run ?b demo_body [] [2, 4]) = Inl ZeroDivisionError" by blast
  from r have "fst (parallel_run ?a demo_body [] [2, 4]) = Inr [(1, 3, 1), (2, 1, 3), (4, 2, 3 / 2)]"
    by (simp add: upt_rec clock_of_simps)
  with c e show ?thesis by simp
qed

text \<open>An empty batch with a clock that advances: the measured times are 1 and 2 seconds
  and the speedups one half. An empty batch with a clock that stands still: the division
  by zero.\<close>

theorem empty_batch_counterexample:
  "parallel_main [''d''] (clock_of [0, 1, 1, 3, 3, 5, 5, 7]) demo_body []
     = (Inr [(1, 1, 1), (2, 2, 1 / 2), (4, 2, 1 / 2), (8, 2, 1 / 2)],
        \<lparr>calls = [], errors_printed = [], ticks = 8\<rparr>)
   \<and> fst (parallel_main [''d''] (clock_of [0, 0, 0, 0, 0, 0, 0, 0]) demo_body [])
       = Inl ZeroDivisionError"
  by (simp add: parallel_main_def parallel_tasks_def parallel_run_def worker_counts_def
      perf_counter_def fresh_world_def pool_map_def pool_chunksize_def clock_of_simps
      eval_nat_numeral)




text \<open>
  Claim C8. When \<open>parallel_process.py\<close> returns its table, the rows are those of 1, 2, 4
  and 8 workers in this order, the baseline first. When \<open>distributed_sim.py\<close> returns its
  report, the rows are the results that the nodes have put into the queue, in ascending
  order of the node id, whatever the order in which the nodes finished: the results of
  node 1 and node 2 in this order when both nodes reach the end of their lists.
\<close>

theorem report_rows_ascending:
  "(parallel_main sd clk body found = (Inr table, w') \<longrightarrow>
      map fst table = [1, 2, 4, 8] \<and> sorted (map fst table))
   \<and> (distributed_main sd dclk nclk nbody finished paths = (Inr rep, runs) \<longrightarrow>
        node_times rep = queued runs
        \<and> sorted (map fst (node_times rep))
        \<and> map (\<lambda>run. fst (fst run)) runs = [1, 2]
        \<and> ((\<forall>i. prints_all (nbody i)) \<longrightarrow> map fst (node_times rep) = [1, 2]))"
proof (intro conjI impI)
  assume p: "parallel_main sd clk body found = (Inr table, w')"
  from parallel_main_rows [OF p] show "map fst table = [1, 2, 4, 8]" .
  then show "sorted (map fst table)" by simp
next
  assume d: "distributed_main sd dclk nclk nbody finished paths = (Inr rep, runs)"
  from distributed_main_rows(1,2,3) [OF d] show "node_times rep = queued runs"
    and "sorted (map fst (node_times rep))"
    and "map (\<lambda>run. fst (fst run)) runs = [1, 2]" .
  assume "\<forall>i. prints_all (nbody i)"
  then have "(\<forall>i. prints_all (nbody i)) \<or> paths = []" by simp
  from distributed_main_rows(4) [OF d this] show "map fst (node_times rep) = [1, 2]" .
qed

theorem report_rows_ascending_witness:
  "map fst [(1, 4, 1), (2, 2, 2), (4, 1, 4), (8, 1, 4) :: table_row] = [1, 2, 4, 8]
   \<and> sorted (map fst [(1, 4, 1), (2, 2, 2), (4, 1, 4), (8, 1, 4) :: table_row])
   \<and> map fst [(1, 2, 1), (2, 1, 2) :: node_result] = [1, 2]
   \<and> fst (parallel_main [''d''] (clock_of [0, 4, 4, 6, 6, 7, 7, 8]) demo_body demo_found)
       = Inr [(1, 4, 1), (2, 2, 2), (4, 1, 4), (8, 1, 4)]
   \<and> fst (distributed_main [''d''] (clock_of [0, 1, 2]) demo_node_clk demo_node_body
           demo_finished demo_found)
       = Inr \<lparr>node_times = [(1, 2, 1), (2, 1, 2)], total_distributed_time = 1,
              efficiency = 1824 / 100\<rparr>"
proof -
  let ?clk = "clock_of [0, 4, 4, 6, 6, 7, 7, 8]"
  let ?rep = "\<lparr>node_times = [(1, 2, 1), (2, 1, 2)], total_distributed_time = 1,
                 efficiency = 1824 / 100\<rparr>"
  let ?rows = "[(1, 4, 1), (2, 2, 2), (4, 1, 4), (8, 1, 4) :: table_row]"
  have "\<forall>i < length worker_counts.
      1 \<le> worker_counts ! i \<and> ?clk (2 * i + 3) \<noteq> ?clk (2 * i + 2)"
    by (simp add: worker_counts_def All_less_Suc2 numeral_3_eq_3 clock_of_simps)
  from parallel_run_completes [OF this, of demo_body "parallel_tasks [''d''] demo_found"]
    demo_body_prints
  obtain w' where p: "parallel_main [''d''] ?clk demo_body demo_found = (Inr ?rows, w')"
    by (auto simp: parallel_main_def worker_counts_def upt_rec clock_of_simps)
  obtain res runs where "distributed_main [''d''] (clock_of [0, 1, 2]) demo_node_clk
      demo_node_body demo_finished demo_found = (res, runs)" by force
  with demo_distributed_main have d: "distributed_main [''d''] (clock_of [0, 1, 2])
      demo_node_clk demo_node_body demo_finished demo_found = (Inr ?rep, runs)"
    by simp
  have pa: "\<forall>i. prints_all (demo_node_body i)"
    by (simp add: demo_node_body_def demo_body_prints)
  note th = report_rows_ascending [of "[''d'']" ?clk demo_body demo_found ?rows w'
      "clock_of [0, 1, 2]" demo_node_clk demo_node_body demo_finished demo_found ?rep runs]
  from th p have a: "map fst ?rows = [1, 2, 4, 8]" "sorted (map fst ?rows)" by blast+
  from th d pa have "map fst (node_times ?rep) = [1, 2]" by blast
  then have b: "map fst [(1, 2, 1), (2, 1, 2) :: node_result] = [1, 2]" by simp
  from a b p d show ?thesis by simp
qed

text \<open>
  Claim C9. For distinct input paths below the source directory, the output paths that the
  two nodes of \<open>distributed_sim.py\<close> hand to \<open>process_image\<close> are pairwise distinct;
  every output path of a node lies below the output directory of that node, and the two
  directories differ. The output paths of the task lists of the other two scripts are
  pairwise distinct as well.
\<close>

theorem output_paths_disjoint:
  assumes "distinct found"
    and "\<forall>p \<in> set found. \<exists>rel. rel \<noteq> [] \<and> p = SOURCE_DIR sd @ rel"
  shows "distinct (concat (map (\<lambda>run. map snd (calls (snd run)))
                      (snd (distributed_main sd clk nclk nbody finished found))))
     \<and> (\<forall>run \<in> set (snd (distributed_main sd clk nclk nbody finished found)).
          \<forall>out \<in> set (map snd (calls (snd run))).
            take (length (OUTPUT_DIR_NODE1 sd)) out
              = node_outputs sd ! (fst (fst run) - 1))
     \<and> OUTPUT_DIR_NODE1 sd \<noteq> OUTPUT_DIR_NODE2 sd
     \<and> distinct (map snd (parallel_tasks sd found))
     \<and> distinct (map snd (sequential_image_files sd found))"
proof -
  let ?c = "(length found + 1) div 2"
  let ?o1 = "\<lambda>p. join (OUTPUT_DIR_NODE1 sd) (relpath p (SOURCE_DIR sd))"
  let ?o2 = "\<lambda>p. join (OUTPUT_DIR_NODE2 sd) (relpath p (SOURCE_DIR sd))"
  let ?r1 = "node_worker sd (nclk 1) (nbody 1) 1 (take ?c found) (OUTPUT_DIR_NODE1 sd)"
  let ?r2 = "node_worker sd (nclk 2) (nbody 2) 2 (drop ?c found) (OUTPUT_DIR_NODE2 sd)"
  have runs: "snd (distributed_main sd clk nclk nbody finished found) = [?r1, ?r2]"
    unfolding distributed_main_unfold by simp
  have below: "\<And>p dir. p \<in> set found \<Longrightarrow>
      \<exists>rel. join dir (relpath p (SOURCE_DIR sd)) = dir @ rel"
    using assms(2) output_path_below by blast
  from node_outputs_prefix [of sd "nclk 1" "nbody 1" 1 "take ?c found" "OUTPUT_DIR_NODE1 sd"]
  obtain m1 where m1: "map snd (calls (snd ?r1)) = take m1 (map ?o1 (take ?c found))" by blast
  from node_outputs_prefix [of sd "nclk 2" "nbody 2" 2 "drop ?c found" "OUTPUT_DIR_NODE2 sd"]
  obtain m2 where m2: "map snd (calls (snd ?r2)) = take m2 (map ?o2 (drop ?c found))" by blast
  have s1: "set (map snd (calls (snd ?r1))) \<subseteq> set (map ?o1 (take ?c found))"
    unfolding m1 by (rule set_take_subset)
  have s2: "set (map snd (calls (snd ?r2))) \<subseteq> set (map ?o2 (drop ?c found))"
    unfolding m2 by (rule set_take_subset)
  have "distinct (map ?o1 (take ?c found))"
    using outputs_distinct [OF assms, of "OUTPUT_DIR_NODE1 sd"]
    by (metis append_take_drop_id distinct_append map_append)
  then have d1: "distinct (map snd (calls (snd ?r1)))"
    unfolding m1 by (rule distinct_take)
  have "distinct (map ?o2 (drop ?c found))"
    using outputs_distinct [OF assms, of "OUTPUT_DIR_NODE2 sd"]
    by (metis append_take_drop_id distinct_append map_append)
  then have d2: "distinct (map snd (calls (snd ?r2)))"
    unfolding m2 by (rule distinct_take)
  have cross: "set (map snd (calls (snd ?r1))) \<inter> set (map snd (calls (snd ?r2))) = {}"
  proof (rule ccontr)
    assume "set (map snd (calls (snd ?r1))) \<inter> set (map snd (calls (snd ?r2))) \<noteq> {}"
    with s1 s2 have "set (map ?o1 (take ?c found)) \<inter> set (map ?o2 (drop ?c found)) \<noteq> {}"
      by blast
    then obtain p q where p: "p \<in> set (take ?c found)" and q: "q \<in> set (drop ?c found)"
      and e: "?o1 p = ?o2 q" by auto
    from p have "p \<in> set found" by (rule in_set_takeD)
    with below obtain rp where rp: "?o1 p = OUTPUT_DIR_NODE1 sd @ rp" by blast
    from q have "q \<in> set found" by (rule in_set_dropD)
    with below obtain rq where rq: "?o2 q = OUTPUT_DIR_NODE2 sd @ rq" by blast
    from e rp rq node_dirs_differ [of sd rp rq] show False by simp
  qed
  have a: "distinct (concat (map (\<lambda>run. map snd (calls (snd run)))
                      (snd (distributed_main sd clk nclk nbody finished found))))"
    unfolding runs using d1 d2 cross by simp
  have len: "length (OUTPUT_DIR_NODE2 sd) = length (OUTPUT_DIR_NODE1 sd)"
    by (simp add: OUTPUT_DIR_NODE1_def OUTPUT_DIR_NODE2_def join_def)
  have b: "\<forall>run \<in> set (snd (distributed_main sd clk nclk nbody finished found)).
          \<forall>out \<in> set (map snd (calls (snd run))).
            take (length (OUTPUT_DIR_NODE1 sd)) out
              = node_outputs sd ! (fst (fst run) - 1)"
  proof (intro ballI)
    fix run out
    assume r: "run \<in> set (snd (distributed_main sd clk nclk nbody finished found))"
      and o: "out \<in> set (map snd (calls (snd run)))"
    from r runs have "run = ?r1 \<or> run = ?r2" by simp
    then show "take (length (OUTPUT_DIR_NODE1 sd)) out = node_outputs sd ! (fst (fst run) - 1)"
    proof
      assume e: "run = ?r1"
      with o s1 obtain p where "p \<in> set (take ?c found)" "out = ?o1 p"
        by auto
      with below [of p "OUTPUT_DIR_NODE1 sd"] obtain rel where "out = OUTPUT_DIR_NODE1 sd @ rel"
        by (auto dest: in_set_takeD)
      then show ?thesis using e by (simp add: node_worker_id node_outputs_def)
    next
      assume e: "run = ?r2"
      with o s2 obtain p where "p \<in> set (drop ?c found)" "out = ?o2 p"
        by auto
      with below [of p "OUTPUT_DIR_NODE2 sd"] obtain rel where "out = OUTPUT_DIR_NODE2 sd @ rel"
        by (auto dest: in_set_dropD)
      then show ?thesis using e len by (simp add: node_worker_id node_outputs_def)
    qed
  qed
  have c: "OUTPUT_DIR_NODE1 sd \<noteq> OUTPUT_DIR_NODE2 sd"
    using node_dirs_differ [of sd "[]" "[]"] by simp
  have d: "distinct (map snd (parallel_tasks sd found))"
    using outputs_distinct [OF assms, of "parallel_OUTPUT_DIR sd"]
    by (simp add: parallel_tasks_def comp_def)
  have e: "distinct (map snd (sequential_image_files sd found))"
    using outputs_distinct [OF assms, of "sequential_OUTPUT_DIR sd"]
    by (simp add: sequential_image_files_def comp_def)
  from a b c d e show ?thesis by blast
qed

theorem output_paths_disjoint_witness:
  "distinct (concat (map (\<lambda>run. map snd (calls (snd run)))
       (snd (distributed_main [''d''] (clock_of [0, 1, 2]) demo_node_clk demo_node_body
               demo_finished demo_found))))
   \<and> concat (map (\<lambda>run. map snd (calls (snd run)))
       (snd (distributed_main [''d''] (clock_of [0, 1, 2]) demo_node_clk demo_node_body
               demo_finished demo_found)))
     = [[''d'', ''output_dist_node1'', ''a.png''], [''d'', ''output_dist_node1'', ''b.png''],
        [''d'', ''output_dist_node2'', ''c.png'']]"
proof -
  have h1: "distinct demo_found" by (simp add: demo_found_def demo_tasks_def)
  have h2: "\<forall>p \<in> set demo_found. \<exists>rel. rel \<noteq> [] \<and> p = SOURCE_DIR [''d''] @ rel"
    unfolding demo_found_paths by simp
  from output_paths_disjoint [OF h1 h2, of "clock_of [0, 1, 2]" demo_node_clk demo_node_body
      demo_finished]
  have a: "distinct (concat (map (\<lambda>run. map snd (calls (snd run)))
       (snd (distributed_main [''d''] (clock_of [0, 1, 2]) demo_node_clk demo_node_body
               demo_finished demo_found))))"
    by blast
  have b: "concat (map (\<lambda>run. map snd (calls (snd run)))
       (snd (distributed_main [''d''] (clock_of [0, 1, 2]) demo_node_clk demo_node_body
               demo_finished demo_found)))
     = [[''d'', ''output_dist_node1'', ''a.png''], [''d'', ''output_dist_node1'', ''b.png''],
        [''d'', ''output_dist_node2'', ''c.png'']]"
    unfolding distributed_main_unfold demo_found_paths
    by (simp add: node_outputs_of_calls demo_node_body_def demo_body_prints relpath_below
        join_def OUTPUT_DIR_NODE1_def OUTPUT_DIR_NODE2_def)
  from a b show ?thesis by simp
qed

section \<open>Failures of single units\<close>











section \<open>The print in the handler\<close>

text \<open>
  Claim C10. The claim holds of \<open>process_image\<close> whenever the error line can be printed
  (the theorem of claim C4). It fails where the imaging raises and the console refuses
  the line: the \<open>print\<close> in the handler raises, and the exception leaves
  \<open>process_image\<close> in all three scripts. The list comprehension and the sequential
  loop end at that unit, so the third unit is never processed and both scripts end with
  the exception; the node that holds the unit ends without a queued result, and the report
  of \<open>distributed_sim.py\<close> has the row of the other node only.
\<close>

theorem handler_print_escapes:
  "fst (parallel_process_image demo_refused_body (demo_tasks ! 1)
          (fresh_world\<lparr>calls := [demo_tasks ! 0]\<rparr>)) = Inl UnicodeEncodeError
   \<and> fst (sequential_process_image demo_refused_body (demo_tasks ! 1)
          (fresh_world\<lparr>calls := [demo_tasks ! 0]\<rparr>)) = Inl UnicodeEncodeError
   \<and> fst (distributed_process_image demo_refused_body (demo_tasks ! 1)
          (fresh_world\<lparr>calls := [demo_tasks ! 0]\<rparr>)) = Inl UnicodeEncodeError
   \<and> run_each (parallel_process_image demo_refused_body) demo_tasks fresh_world
       = (Inl UnicodeEncodeError,
          \<lparr>calls = [demo_tasks ! 0, demo_tasks ! 1], errors_printed = [], ticks = 0\<rparr>)
   \<and> parallel_run (clock_of [0, 4, 4, 6, 6, 7, 7, 8]) demo_refused_body demo_tasks
         worker_counts
       = (Inl UnicodeEncodeError,
          \<lparr>calls = [demo_tasks ! 0, demo_tasks ! 1], errors_printed = [], ticks = 1\<rparr>)
   \<and> sequential_main [''d''] (clock_of [0, 2]) demo_refused_body demo_found
       = (Inl UnicodeEncodeError,
          \<lparr>calls = [sequential_image_files [''d''] demo_found ! 0,
                    sequential_image_files [''d''] demo_found ! 1],
           errors_printed = [], ticks = 1\<rparr>)
   \<and> fst (distributed_main [''d''] (clock_of [0, 1, 2]) demo_node_clk demo_refused_node_body
           demo_finished demo_found)
       = Inr \<lparr>node_times = [(2, 1, 2)], total_distributed_time = 1, efficiency = 1824 / 100\<rparr>"
proof -
  have a: "fst (parallel_process_image demo_refused_body (demo_tasks ! 1)
          (fresh_world\<lparr>calls := [demo_tasks ! 0]\<rparr>)) = Inl UnicodeEncodeError"
    by (simp add: parallel_process_image_def demo_refused_body_def demo_tasks_def)
  have b: "fst (sequential_process_image demo_refused_body (demo_tasks ! 1)
          (fresh_world\<lparr>calls := [demo_tasks ! 0]\<rparr>)) = Inl UnicodeEncodeError"
    by (simp add: sequential_process_image_def demo_refused_body_def demo_tasks_def)
  have c: "fst (distributed_process_image demo_refused_body (demo_tasks ! 1)
          (fresh_world\<lparr>calls := [demo_tasks ! 0]\<rparr>)) = Inl UnicodeEncodeError"
    by (simp add: distributed_process_image_def demo_refused_body_def demo_tasks_def)
  have d: "run_each (parallel_process_image demo_refused_body) demo_tasks fresh_world
       = (Inl UnicodeEncodeError,
          \<lparr>calls = [demo_tasks ! 0, demo_tasks ! 1], errors_printed = [], ticks = 0\<rparr>)"
    by (simp add: parallel_process_image_def demo_refused_body_def demo_tasks_def
        fresh_world_def)
  have e: "parallel_run (clock_of [0, 4, 4, 6, 6, 7, 7, 8]) demo_refused_body demo_tasks
         worker_counts
       = (Inl UnicodeEncodeError,
          \<lparr>calls = [demo_tasks ! 0, demo_tasks ! 1], errors_printed = [], ticks = 1\<rparr>)"
  proof (rule parallel_run_raised)
    show "run_each (parallel_process_image demo_refused_body) demo_tasks
        (fresh_world\<lparr>ticks := Suc 0\<rparr>)
       = (Inl UnicodeEncodeError,
          \<lparr>calls = [demo_tasks ! 0, demo_tasks ! 1], errors_printed = [], ticks = 1\<rparr>)"
      by (simp add: parallel_process_image_def demo_refused_body_def demo_tasks_def
          fresh_world_def)
  qed
  have f: "sequential_main [''d''] (clock_of [0, 2]) demo_refused_body demo_found
       = (Inl UnicodeEncodeError,
          \<lparr>calls = [sequential_image_files [''d''] demo_found ! 0,
                    sequential_image_files [''d''] demo_found ! 1],
           errors_printed = [], ticks = 1\<rparr>)"
    by (simp add: sequential_main_def perf_counter_def fresh_world_def
        sequential_image_files_def demo_found_def demo_tasks_def sequential_process_image_def
        demo_refused_body_def)
  have s: "sort (sort_key (\<lambda>r. demo_finished (fst r)) [(2, Suc 0, 2) :: node_result])
      = [(2, Suc 0, 2)]"
    by (rule sort_arrivals) simp
  have n1: "fst (node_worker [''d''] (demo_node_clk (Suc 0)) demo_refused_body (Suc 0)
      [[''d'', ''images_dataset'', ''a.png''], [''d'', ''images_dataset'', ''b.png'']]
      (OUTPUT_DIR_NODE1 [''d''])) = (Suc 0, None)"
    by (simp add: node_worker_def perf_counter_def fresh_world_def
        distributed_process_image_def demo_refused_body_def)
  have n2: "fst (node_worker [''d''] (demo_node_clk 2) demo_refused_body 2
      [[''d'', ''images_dataset'', ''c.png'']] (OUTPUT_DIR_NODE2 [''d''])) = (2, Some (2, Suc 0, 2))"
    by (simp add: node_worker_def perf_counter_def fresh_world_def
        distributed_process_image_def demo_refused_body_def demo_node_clk_def clock_of_simps)
  have g: "fst (distributed_main [''d''] (clock_of [0, 1, 2]) demo_node_clk
      demo_refused_node_body demo_finished demo_found)
       = Inr \<lparr>node_times = [(2, 1, 2)], total_distributed_time = 1, efficiency = 1824 / 100\<rparr>"
    unfolding distributed_main_unfold
    by (simp add: demo_found_def demo_tasks_def demo_refused_node_body_def queued_def n1 n2 s
        clock_of_simps SEQUENTIAL_TIME_def)
  from a b c d e f g show ?thesis by blast
qed

end
